theory Spec2Isabelle
  imports Main "HOL-Library.Word" "HOL-Library.AList"
begin

unbundle bit_operations_syntax

section \<open>Buffers and errors\<close>

text \<open>
  A Node.js \<^verbatim>\<open>Buffer\<close> is a sequence of bytes. The CRC register of \<^verbatim>\<open>crc16\<close>
  starts at \<^verbatim>\<open>0xFFFF\<close> and is only ever xor-ed with a byte, shifted right, or xor-ed
  with \<^verbatim>\<open>0xA001\<close>, so it is a 16-bit value.
\<close>

type_synonym byte = "8 word"
type_synonym buffer = "byte list"

text \<open>Every \<^verbatim>\<open>throw\<close> and every promise rejection of \<^verbatim>\<open>server.js\<close> is a value.\<close>

datatype error =
    ModbusException byte byte  \<comment> \<open>\<^verbatim>\<open>Modbus exception: FC=.., code=..\<close>\<close>
  | CRCMismatch                \<comment> \<open>\<^verbatim>\<open>CRC mismatch\<close>\<close>
  | ModbusTimeout              \<comment> \<open>\<^verbatim>\<open>Modbus timeout\<close>\<close>
  | SocketError                \<comment> \<open>the socket's \<^verbatim>\<open>error\<close> event\<close>
  | SocketClosed               \<comment> \<open>\<^verbatim>\<open>Socket closed\<close>\<close>
  | RangeError                 \<comment> \<open>\<^verbatim>\<open>writeUInt16BE\<close> of a value above 65535\<close>
  | TypeError                  \<comment> \<open>a property read on \<^verbatim>\<open>undefined\<close>\<close>
  | UnknownBarrier nat         \<comment> \<open>\<^verbatim>\<open>Unknown barrier: id\<close>\<close>
  | NotConnected string        \<comment> \<open>\<^verbatim>\<open>name not connected\<close>\<close>
  | UnknownAction string       \<comment> \<open>\<^verbatim>\<open>Unknown action: name\<close>\<close>

section \<open>CRC-16 for Modbus RTU\<close>

text \<open>The inner loop body of \<^verbatim>\<open>crc16\<close>:
  \<^verbatim>\<open>crc = (crc & 1) ? (crc >> 1) ^ 0xA001 : crc >> 1\<close>.\<close>

definition crc_shift :: "16 word \<Rightarrow> 16 word" where
  "crc_shift crc = (if crc AND 1 \<noteq> 0 then drop_bit 1 crc XOR 0xA001 else drop_bit 1 crc)"

text \<open>The inner loop \<^verbatim>\<open>for (let j = 0; j < 8; j++)\<close>, counting the rounds left.\<close>

fun crc_bits :: "nat \<Rightarrow> 16 word \<Rightarrow> 16 word" where
  "crc_bits 0 crc = crc"
| "crc_bits (Suc j) crc = crc_bits j (crc_shift crc)"

text \<open>One round of the outer loop: \<^verbatim>\<open>crc ^= buffer[i]\<close>, then the eight shifts.\<close>

definition crc_byte :: "16 word \<Rightarrow> byte \<Rightarrow> 16 word" where
  "crc_byte crc b = crc_bits 8 (crc XOR ucast b)"

definition crc16 :: "buffer \<Rightarrow> 16 word" where
  "crc16 buffer = foldl crc_byte 0xFFFF buffer"

text \<open>\<^verbatim>\<open>writeUInt16LE\<close>: low byte first.\<close>

definition uint16LE :: "16 word \<Rightarrow> buffer" where
  "uint16LE v = [ucast v, ucast (drop_bit 8 v)]"

definition appendCRC :: "buffer \<Rightarrow> buffer" where
  "appendCRC buffer = buffer @ uint16LE (crc16 buffer)"

text \<open>\<^verbatim>\<open>buffer.readUInt16LE(off)\<close>; every call is behind a length check that keeps
  \<open>off + 1\<close> inside the buffer.\<close>

definition readUInt16LE :: "buffer \<Rightarrow> nat \<Rightarrow> 16 word" where
  "readUInt16LE buffer off = ucast (buffer ! off) OR push_bit 8 (ucast (buffer ! (off + 1)))"

definition verifyCRC :: "buffer \<Rightarrow> bool" where
  "verifyCRC buffer =
     (if length buffer < 4 then False
      else crc16 (take (length buffer - 2) buffer) = readUInt16LE buffer (length buffer - 2))"

text \<open>A single-bit flip of a buffer: bit \<open>k mod 8\<close> of byte \<open>k div 8\<close> is inverted.\<close>

definition flip_bit_at :: "nat \<Rightarrow> buffer \<Rightarrow> buffer" where
  "flip_bit_at k buffer = buffer[k div 8 := (buffer ! (k div 8)) XOR push_bit (k mod 8) 1]"

section \<open>Modbus framing\<close>

text \<open>\<^verbatim>\<open>Buffer.writeUInt16BE\<close> and \<^verbatim>\<open>writeUInt8\<close> throw a range error on a value that does
  not fit; \<^verbatim>\<open>Buffer.from([..])\<close> truncates each element to a byte.\<close>

definition uint16BE :: "nat \<Rightarrow> error + buffer" where
  "uint16BE v = (if v > 65535 then Inl RangeError else Inr [of_nat (v div 256), of_nat (v mod 256)])"

definition uint8 :: "nat \<Rightarrow> error + buffer" where
  "uint8 v = (if v > 255 then Inl RangeError else Inr [of_nat v])"

text \<open>Sequencing of steps that may throw.\<close>

definition and_then :: "error + 'a \<Rightarrow> ('a \<Rightarrow> error + 'b) \<Rightarrow> error + 'b" where
  "and_then r f = (case r of Inl e \<Rightarrow> Inl e | Inr x \<Rightarrow> f x)"

text \<open>\<^verbatim>\<open>buf.slice(start, end)\<close> for indices that are not negative.\<close>

definition buf_slice :: "nat \<Rightarrow> nat \<Rightarrow> buffer \<Rightarrow> buffer" where
  "buf_slice start end' buf = drop start (take end' buf)"

text \<open>The MBAP header and PDU that \<^verbatim>\<open>buildTCPFrame\<close> assembles once the transaction id
  \<open>tid\<close> has been taken from the board's counter.\<close>

definition tcpFrame :: "nat \<Rightarrow> nat \<Rightarrow> byte \<Rightarrow> buffer \<Rightarrow> error + buffer" where
  "tcpFrame tid unitId fc data =
     (let pdu = fc # data in
      and_then (uint16BE tid) (\<lambda>t.
      and_then (uint16BE 0) (\<lambda>z.
      and_then (uint16BE (length pdu + 1)) (\<lambda>len.
      and_then (uint8 unitId) (\<lambda>u.
      Inr (t @ z @ len @ u @ pdu))))))"

definition buildRTUFrame :: "nat \<Rightarrow> byte \<Rightarrow> buffer \<Rightarrow> buffer" where
  "buildRTUFrame unitId fc data = appendCRC ([of_nat unitId, fc] @ data)"

text \<open>The parsers return \<^verbatim>\<open>null\<close> (\<open>Inr None\<close>) for an incomplete response, the PDU, or
  throw.\<close>

definition parseTCPResponse :: "buffer \<Rightarrow> error + buffer option" where
  "parseTCPResponse response =
     (if length response < 9 then Inr None
      else let fc = response ! 7 in
        if fc AND 0x80 \<noteq> 0 then Inl (ModbusException (fc AND 0x7F) (response ! 8))
        else Inr (Some (drop 7 response)))"

definition parseRTUResponse :: "buffer \<Rightarrow> error + buffer option" where
  "parseRTUResponse response =
     (if length response < 5 then Inr None
      else let fc = response ! 1 in
        if fc AND 0x80 \<noteq> 0 then
          (if length response \<ge> 5 \<and> verifyCRC (buf_slice 0 5 response)
           then Inl (ModbusException (fc AND 0x7F) (response ! 2))
           else Inr None)
        else if (fc = 0x01 \<or> fc = 0x02) \<and> length response < 4 then Inr None
        else
          let expectedLen =
                (if fc = 0x01 \<or> fc = 0x02 then 3 + unat (response ! 2) + 2
                 else if fc = 0x05 \<or> fc = 0x06 then 8
                 else length response)
          in if length response < expectedLen then Inr None
             else let frame = buf_slice 0 expectedLen response in
               if \<not> verifyCRC frame then Inl CRCMismatch
               else Inr (Some (buf_slice 1 (expectedLen - 2) frame)))"

text \<open>Response shapes of the two supported function codes, as the payload that follows
  the function code: a Read Coils response carries a byte count and that many data bytes,
  a Write Single Coil response echoes address and value, two bytes each.\<close>

definition isReadCoilsPayload :: "buffer \<Rightarrow> bool" where
  "isReadCoilsPayload payload =
     (case payload of [] \<Rightarrow> False | n # coilData \<Rightarrow> unat n = length coilData)"

definition isWriteCoilPayload :: "buffer \<Rightarrow> bool" where
  "isWriteCoilPayload payload = (length payload = 4)"

definition response_shape :: "byte \<Rightarrow> buffer \<Rightarrow> bool" where
  "response_shape fc payload =
     (fc = 0x01 \<and> isReadCoilsPayload payload \<or> fc = 0x05 \<and> isWriteCoilPayload payload)"

text \<open>A complete RTU response of one of the two shapes with a correct CRC: unit id,
  function code, payload of the length the function code prescribes, CRC.\<close>

definition valid_rtu_response :: "buffer \<Rightarrow> bool" where
  "valid_rtu_response frame =
     (5 \<le> length frame \<and> verifyCRC frame \<and>
      (frame ! 1 = 0x01 \<and> length frame = 3 + unat (frame ! 2) + 2 \<or>
       frame ! 1 = 0x05 \<and> length frame = 8))"

section \<open>Asynchronous functions\<close>

text \<open>
  An \<^verbatim>\<open>async\<close> function runs on Node's single thread until it awaits a request to the
  outside; it then hands control back to the event loop and is resumed with the response,
  in whatever state the program is by then. A call is therefore a value of the type
  below: it has returned, has thrown, or is parked at a request \<open>'q\<close> with the state it
  leaves behind and a continuation that takes the response \<open>'r\<close> and the state found at
  resumption.
\<close>

datatype ('q, 'r, 's, 'a) task =
    Done 'a 's
  | Threw error 's
  | Await 'q 's "'r \<Rightarrow> 's \<Rightarrow> ('q, 'r, 's, 'a) task"

primrec bind_task ::
  "('q, 'r, 's, 'a) task \<Rightarrow> ('a \<Rightarrow> 's \<Rightarrow> ('q, 'r, 's, 'b) task) \<Rightarrow> ('q, 'r, 's, 'b) task" where
  "bind_task (Done a s) f = f a s"
| "bind_task (Threw e s) f = Threw e s"
| "bind_task (Await q s k) f = Await q s (\<lambda>r s'. bind_task (k r s') f)"

primrec catch_task ::
  "('q, 'r, 's, 'a) task \<Rightarrow> (error \<Rightarrow> 's \<Rightarrow> ('q, 'r, 's, 'a) task) \<Rightarrow> ('q, 'r, 's, 'a) task" where
  "catch_task (Done a s) h = Done a s"
| "catch_task (Threw e s) h = h e s"
| "catch_task (Await q s k) h = Await q s (\<lambda>r s'. catch_task (k r s') h)"

primrec finally_task :: "('q, 'r, 's, 'a) task \<Rightarrow> ('s \<Rightarrow> 's) \<Rightarrow> ('q, 'r, 's, 'a) task" where
  "finally_task (Done a s) fin = Done a (fin s)"
| "finally_task (Threw e s) fin = Threw e (fin s)"
| "finally_task (Await q s k) fin = Await q s (\<lambda>r s'. finally_task (k r s') fin)"

text \<open>Statements of an \<^verbatim>\<open>async\<close> body: \<^verbatim>\<open>return\<close>, \<^verbatim>\<open>throw\<close>, an assignment to the
  program state, \<^verbatim>\<open>await m; f\<close>, \<^verbatim>\<open>try { m } catch (e) { h }\<close> and
  \<^verbatim>\<open>try { m } finally { fin }\<close> with an assignment as the \<^verbatim>\<open>finally\<close> block.\<close>

definition ret :: "'a \<Rightarrow> 's \<Rightarrow> ('q, 'r, 's, 'a) task" where
  "ret a s = Done a s"

definition throw :: "error \<Rightarrow> 's \<Rightarrow> ('q, 'r, 's, 'a) task" where
  "throw e s = Threw e s"

definition upd :: "('s \<Rightarrow> 's) \<Rightarrow> 's \<Rightarrow> ('q, 'r, 's, unit) task" where
  "upd f s = Done () (f s)"

definition seq ::
  "('s \<Rightarrow> ('q, 'r, 's, 'a) task) \<Rightarrow> ('a \<Rightarrow> 's \<Rightarrow> ('q, 'r, 's, 'b) task) \<Rightarrow> 's \<Rightarrow> ('q, 'r, 's, 'b) task" where
  "seq m f s = bind_task (m s) f"

definition try_catch ::
  "('s \<Rightarrow> ('q, 'r, 's, 'a) task) \<Rightarrow> (error \<Rightarrow> 's \<Rightarrow> ('q, 'r, 's, 'a) task) \<Rightarrow> 's \<Rightarrow> ('q, 'r, 's, 'a) task" where
  "try_catch m h s = catch_task (m s) h"

definition try_finally ::
  "('s \<Rightarrow> ('q, 'r, 's, 'a) task) \<Rightarrow> ('s \<Rightarrow> 's) \<Rightarrow> 's \<Rightarrow> ('q, 'r, 's, 'a) task" where
  "try_finally m fin s = finally_task (m s) fin"

text \<open>A \<^verbatim>\<open>for\<close> loop whose body awaits: the iterations run in order and an exception
  leaves the loop.\<close>

primrec for_each ::
  "'x list \<Rightarrow> ('x \<Rightarrow> 's \<Rightarrow> ('q, 'r, 's, unit) task) \<Rightarrow> 's \<Rightarrow> ('q, 'r, 's, unit) task" where
  "for_each [] body = ret ()"
| "for_each (x # xs) body = seq (body x) (\<lambda>_. for_each xs body)"

text \<open>
  Running one call to its end with nothing else interleaved: the \<open>n\<close>-th request it
  issues receives the \<open>n\<close>-th response of \<open>net\<close>, and \<open>silence\<close> once \<open>net\<close> is used up. The
  result comes with the final state, the requests issued (each with the state it was
  issued in) and the responses left over.
\<close>

datatype 'a result = Returned 'a | Raised error

definition next_response :: "'r \<Rightarrow> 'r list \<Rightarrow> 'r" where
  "next_response silence net = (case net of [] \<Rightarrow> silence | r # _ \<Rightarrow> r)"

primrec run ::
  "'r \<Rightarrow> ('q, 'r, 's, 'a) task \<Rightarrow> 'r list \<Rightarrow> 'a result \<times> 's \<times> ('q \<times> 's) list \<times> 'r list" where
  "run silence (Done a s) net = (Returned a, s, [], net)"
| "run silence (Threw e s) net = (Raised e, s, [], net)"
| "run silence (Await q s k) net =
     (case run silence (k (next_response silence net) s) (tl net) of
        (res, s', trace, net') \<Rightarrow> (res, s', (q, s) # trace, net'))"

text \<open>
  A call keeps \<open>I\<close> and issues under \<open>R\<close> when, run to its end from a state with \<open>I\<close>, it
  leaves a state with \<open>I\<close> whether it returns or throws, and every request it has issued
  satisfies \<open>R\<close> together with the state it was issued in.
\<close>

definition keeps ::
  "('s \<Rightarrow> bool) \<Rightarrow> ('q \<Rightarrow> 's \<Rightarrow> bool) \<Rightarrow> 'r \<Rightarrow> ('s \<Rightarrow> ('q, 'r, 's, 'a) task) \<Rightarrow> bool" where
  "keeps I R silence m =
     (\<forall>s net res s' trace net'.
        I s \<longrightarrow> run silence (m s) net = (res, s', trace, net') \<longrightarrow>
        I s' \<and> (\<forall>(q, sq) \<in> set trace. R q sq))"

section \<open>The relay server: configuration and state\<close>

text \<open>The board registry \<^verbatim>\<open>BOARDS\<close> and the barrier mapping \<^verbatim>\<open>BARRIERS\<close>, in the order of
  their keys. Host, port and unit id come from the environment.\<close>

record board_cfg =
  host :: string
  port :: nat
  unitId :: nat
  channels :: nat
  board_name :: string

record barrier_cfg =
  board :: string
  lift :: nat
  close :: nat
  stop :: nat
  barrier_name :: string

record config =
  BOARDS :: "(string \<times> board_cfg) list"
  BARRIERS :: "(nat \<times> barrier_cfg) list"

text \<open>The registry as \<^verbatim>\<open>server.js\<close> spells it out, with the default environment.\<close>

definition default_config :: config where
  "default_config = \<lparr>
     BOARDS = [
       (''board1'', \<lparr>host = ''10.10.10.64'', port = 4196, unitId = 1, channels = 6,
                    board_name = ''Board 1 (Main)''\<rparr>),
       (''board2'', \<lparr>host = ''10.10.10.65'', port = 4196, unitId = 1, channels = 3,
                    board_name = ''Board 2 (Barrier 3)''\<rparr>)],
     BARRIERS = [
       (1, \<lparr>board = ''board1'', lift = 0, close = 1, stop = 2, barrier_name = ''Barrier 1''\<rparr>),
       (2, \<lparr>board = ''board1'', lift = 3, close = 4, stop = 5, barrier_name = ''Barrier 2''\<rparr>),
       (3, \<lparr>board = ''board2'', lift = 0, close = 1, stop = 2, barrier_name = ''Barrier 3''\<rparr>)]\<rparr>"

record board_state =
  reachable :: bool
  modeDetected :: bool
  useRTU :: bool
  commandLock :: bool
  coils :: "bool list"
  transactionId :: nat

text \<open>The \<^verbatim>\<open>details\<close> object of an audit entry: of a barrier action (name, id, channel;
  the channel is \<^verbatim>\<open>NaN\<close> for an action that names no coil), of an auto-release, and of
  an emergency stop (the board keys). The timestamp of an entry is left out.\<close>

datatype details =
    BarrierDetails string nat "nat option"
  | ReleaseDetails string
  | BoardsDetails "string list"

record audit_entry =
  audit_action :: string
  audit_source :: string
  audit_details :: details

text \<open>What the callback of a close timer has captured.\<close>

record close_release =
  cr_board :: string
  cr_barrier :: barrier_cfg
  cr_barrierId :: nat

text \<open>
  The program state: \<^verbatim>\<open>boardState\<close>, \<^verbatim>\<open>closeTimers\<close> (per barrier id a timer handle or
  \<^verbatim>\<open>null\<close>) and \<^verbatim>\<open>auditEntries\<close>, together with the timer queue of the runtime: the
  pending \<^verbatim>\<open>setTimeout\<close> calls by handle, and the next fresh handle.
\<close>

record state =
  boardState :: "string \<rightharpoonup> board_state"
  closeTimers :: "(nat \<times> nat option) list"
  auditEntries :: "audit_entry list"
  timers :: "(nat \<times> close_release) list"
  nextTimer :: nat

text \<open>The state at start-up: one entry per board, nothing detected, nothing pending.\<close>

definition initial_board :: "board_cfg \<Rightarrow> board_state" where
  "initial_board c = \<lparr>reachable = False, modeDetected = False, useRTU = False,
     commandLock = False, coils = replicate (channels c) False, transactionId = 0\<rparr>"

definition initial_state :: "config \<Rightarrow> state" where
  "initial_state cfg = \<lparr>boardState = map_of (map (\<lambda>(k, c). (k, initial_board c)) (BOARDS cfg)),
     closeTimers = [], auditEntries = [], timers = [], nextTimer = 0\<rparr>"

text \<open>A request on the wire: the board it goes to, the function code and data that
  \<^verbatim>\<open>modbusRequest\<close> was called with, and the frame written to the socket.\<close>

record request =
  rq_board :: string
  rq_fc :: byte
  rq_data :: buffer
  rq_frame :: buffer

text \<open>What the socket of one request delivers, in order: \<^verbatim>\<open>data\<close> chunks, an
  \<^verbatim>\<open>error\<close>, a \<^verbatim>\<open>close\<close>. When the events end before the promise is settled, the
  timeout fires.\<close>

datatype event = Data buffer | Err | Close

type_synonym 'a io = "state \<Rightarrow> (request, event list, state, 'a) task"

section \<open>The relay server: requests\<close>

text \<open>\<^verbatim>\<open>state.field = v\<close> on the state object of a board; a property write on
  \<^verbatim>\<open>undefined\<close> throws.\<close>

definition modify_board :: "string \<Rightarrow> (board_state \<Rightarrow> board_state) \<Rightarrow> unit io" where
  "modify_board boardKey f s =
     (case boardState s boardKey of
        None \<Rightarrow> Threw TypeError s
      | Some st \<Rightarrow> Done () (s\<lparr>boardState := (boardState s)(boardKey \<mapsto> f st)\<rparr>))"

text \<open>\<^verbatim>\<open>buildTCPFrame\<close> increments the board's transaction counter before it assembles
  the frame.\<close>

definition buildTCPFrame :: "string \<Rightarrow> nat \<Rightarrow> byte \<Rightarrow> buffer \<Rightarrow> state \<Rightarrow> (error + buffer) \<times> state" where
  "buildTCPFrame boardKey unit fc data s =
     (case boardState s boardKey of
        None \<Rightarrow> (Inl TypeError, s)
      | Some st \<Rightarrow>
          let st' = st\<lparr>transactionId := transactionId st + 1\<rparr>;
              tid = transactionId st' mod 65536
          in (tcpFrame tid unit fc data, s\<lparr>boardState := (boardState s)(boardKey \<mapsto> st')\<rparr>))"

text \<open>The \<^verbatim>\<open>data\<close> handler of \<^verbatim>\<open>modbusRequest\<close> over the events of one socket: each chunk
  is appended to what has arrived and the whole is parsed again in the board's mode.\<close>

fun on_data :: "bool \<Rightarrow> buffer \<Rightarrow> event list \<Rightarrow> error + buffer" where
  "on_data rtu buf [] = Inl ModbusTimeout"
| "on_data rtu buf (Data chunk # events) =
     (let buf' = buf @ chunk in
      case (if rtu then parseRTUResponse buf' else parseTCPResponse buf') of
        Inl err \<Rightarrow> Inl err
      | Inr (Some pdu) \<Rightarrow> Inr pdu
      | Inr None \<Rightarrow> on_data rtu buf' events)"
| "on_data rtu buf (Err # events) = Inl SocketError"
| "on_data rtu buf (Close # events) = Inl SocketClosed"

definition modbusRequest :: "config \<Rightarrow> string \<Rightarrow> byte \<Rightarrow> buffer \<Rightarrow> buffer io" where
  "modbusRequest cfg boardKey fc data s =
     (case (map_of (BOARDS cfg) boardKey, boardState s boardKey) of
        (Some c, Some st) \<Rightarrow>
          (case (if useRTU st then (Inr (buildRTUFrame (unitId c) fc data), s)
                 else buildTCPFrame boardKey (unitId c) fc data s) of
             (Inl err, s') \<Rightarrow> Threw err s'
           | (Inr frame, s') \<Rightarrow>
               Await \<lparr>rq_board = boardKey, rq_fc = fc, rq_data = data, rq_frame = frame\<rparr> s'
                 (\<lambda>events s''.
                    case boardState s'' boardKey of
                      None \<Rightarrow> Threw TypeError s''
                    | Some st'' \<Rightarrow>
                        (case on_data (useRTU st'') [] events of
                           Inl err \<Rightarrow> Threw err s''
                         | Inr pdu \<Rightarrow> Done pdu s'')))
      | _ \<Rightarrow> Threw TypeError s)"

text \<open>Coil \<open>i\<close> of a Read Coils PDU: \<^verbatim>\<open>!!(pdu[2 + Math.floor(i / 8)] & (1 << (i % 8)))\<close>.
  An index past the end of the PDU reads \<^verbatim>\<open>undefined\<close>, and \<^verbatim>\<open>undefined & m\<close> is 0.\<close>

definition coil_at :: "buffer \<Rightarrow> nat \<Rightarrow> bool" where
  "coil_at pdu i =
     (if 2 + i div 8 < length pdu then pdu ! (2 + i div 8) AND push_bit (i mod 8) 1 \<noteq> 0
      else False)"

definition readCoils :: "config \<Rightarrow> string \<Rightarrow> nat \<Rightarrow> nat \<Rightarrow> (bool list) io" where
  "readCoils cfg boardKey startAddr qty =
     (case and_then (uint16BE startAddr) (\<lambda>a. and_then (uint16BE qty) (\<lambda>q. Inr (a @ q))) of
        Inl err \<Rightarrow> throw err
      | Inr data \<Rightarrow>
          seq (modbusRequest cfg boardKey 0x01 data) (\<lambda>pdu.
          ret (map (coil_at pdu) [0..<qty])))"

definition writeCoil :: "config \<Rightarrow> string \<Rightarrow> nat \<Rightarrow> bool \<Rightarrow> unit io" where
  "writeCoil cfg boardKey addr v =
     (case and_then (uint16BE addr) (\<lambda>a.
           and_then (uint16BE (if v then 0xFF00 else 0x0000)) (\<lambda>w. Inr (a @ w))) of
        Inl err \<Rightarrow> throw err
      | Inr data \<Rightarrow> seq (modbusRequest cfg boardKey 0x05 data) (\<lambda>_. ret ()))"

section \<open>The relay server: mode detection and heartbeat\<close>

definition autoDetectBoard :: "config \<Rightarrow> string \<Rightarrow> bool io" where
  "autoDetectBoard cfg boardKey =
     (case map_of (BOARDS cfg) boardKey of
        None \<Rightarrow> throw TypeError
      | Some c \<Rightarrow>
          (case and_then (uint16BE 0) (\<lambda>a. and_then (uint16BE (channels c)) (\<lambda>q. Inr (a @ q))) of
             Inl err \<Rightarrow> throw err
           | Inr testData \<Rightarrow>
               seq (modify_board boardKey (\<lambda>st. st\<lparr>useRTU := False\<rparr>)) (\<lambda>_.
               seq (try_catch (seq (modbusRequest cfg boardKey 0x01 testData) (\<lambda>_. ret True))
                              (\<lambda>e. ret False)) (\<lambda>tcp.
               if tcp then ret True
               else
                 seq (modify_board boardKey (\<lambda>st. st\<lparr>useRTU := True\<rparr>)) (\<lambda>_.
                 seq (try_catch (seq (modbusRequest cfg boardKey 0x01 testData) (\<lambda>_. ret True))
                                (\<lambda>e. ret False)) (\<lambda>rtu.
                 if rtu then ret True else ret False))))))"

definition heartbeatBoard :: "config \<Rightarrow> string \<Rightarrow> unit io" where
  "heartbeatBoard cfg boardKey s =
     (case boardState s boardKey of
        None \<Rightarrow> Threw TypeError s
      | Some st \<Rightarrow>
          if commandLock st then Done () s
          else
            seq (if \<not> modeDetected st then
                   seq (autoDetectBoard cfg boardKey) (\<lambda>detected.
                   seq (modify_board boardKey (\<lambda>st. st\<lparr>modeDetected := detected\<rparr>)) (\<lambda>_.
                   ret detected))
                 else ret True) (\<lambda>detected.
            if \<not> detected then ret ()
            else
              try_catch
                (case map_of (BOARDS cfg) boardKey of
                   None \<Rightarrow> throw TypeError
                 | Some c \<Rightarrow>
                     seq (readCoils cfg boardKey 0 (channels c)) (\<lambda>cs.
                     modify_board boardKey (\<lambda>st. st\<lparr>coils := cs, reachable := True\<rparr>)))
                (\<lambda>err.
                 modify_board boardKey (\<lambda>st. st\<lparr>reachable := False, modeDetected := False\<rparr>)))
            s)"

section \<open>Vocabulary for statements about the relay server\<close>

text \<open>The program state with the state object of one board replaced.\<close>

definition set_board :: "string \<Rightarrow> board_state \<Rightarrow> state \<Rightarrow> state" where
  "set_board boardKey st s = s\<lparr>boardState := (boardState s)(boardKey \<mapsto> st)\<rparr>"

text \<open>A request has been answered with a PDU.\<close>

definition resolved :: "error + 'a \<Rightarrow> bool" where
  "resolved r = (case r of Inl _ \<Rightarrow> False | Inr _ \<Rightarrow> True)"

text \<open>The data of a Read Coils request (start address and quantity) and of a Write
  Single Coil request (address, \<^verbatim>\<open>0xFF00\<close> for on and \<^verbatim>\<open>0x0000\<close> for off), each field
  big-endian.\<close>

definition readCoilsRequest :: "nat \<Rightarrow> nat \<Rightarrow> buffer" where
  "readCoilsRequest start qty =
     [of_nat (start div 256), of_nat (start mod 256), of_nat (qty div 256), of_nat (qty mod 256)]"

definition writeCoilRequest :: "nat \<Rightarrow> bool \<Rightarrow> buffer" where
  "writeCoilRequest addr v =
     [of_nat (addr div 256), of_nat (addr mod 256), if v then 0xFF else 0x00, 0x00]"

text \<open>A request framed as Modbus/TCP under a transaction counter, and framed as
  RTU-over-TCP.\<close>

definition tcp_request :: "string \<Rightarrow> nat \<Rightarrow> nat \<Rightarrow> byte \<Rightarrow> buffer \<Rightarrow> request" where
  "tcp_request boardKey tid u fc data =
     \<lparr>rq_board = boardKey, rq_fc = fc, rq_data = data,
      rq_frame = [of_nat (tid mod 65536 div 256), of_nat (tid mod 65536 mod 256), 0, 0,
                  of_nat ((length data + 2) div 256), of_nat ((length data + 2) mod 256),
                  of_nat u, fc] @ data\<rparr>"

definition rtu_request :: "string \<Rightarrow> nat \<Rightarrow> byte \<Rightarrow> buffer \<Rightarrow> request" where
  "rtu_request boardKey u fc data =
     \<lparr>rq_board = boardKey, rq_fc = fc, rq_data = data, rq_frame = buildRTUFrame u fc data\<rparr>"

text \<open>The state that framing a request to a board leaves behind (in TCP mode the
  transaction counter has advanced), the request as it is framed for a board in a given
  state, and what a request asks for, regardless of framing.\<close>

definition after_request :: "string \<Rightarrow> state \<Rightarrow> state" where
  "after_request boardKey s =
     (case boardState s boardKey of
        None \<Rightarrow> s
      | Some st \<Rightarrow>
          if useRTU st then s
          else set_board boardKey (st\<lparr>transactionId := transactionId st + 1\<rparr>) s)"

definition framed :: "string \<Rightarrow> board_cfg \<Rightarrow> board_state \<Rightarrow> byte \<Rightarrow> buffer \<Rightarrow> request" where
  "framed boardKey c st fc data =
     (if useRTU st then rtu_request boardKey (unitId c) fc data
      else tcp_request boardKey (transactionId st + 1) (unitId c) fc data)"

definition logical :: "request \<Rightarrow> string \<times> byte \<times> buffer" where
  "logical q = (rq_board q, rq_fc q, rq_data q)"

text \<open>A state in which every board of the registry has been detected in TCP mode and
  found reachable with all coils off, as two answered heartbeat requests per board leave
  it.\<close>

definition online_board :: "board_cfg \<Rightarrow> board_state" where
  "online_board c = \<lparr>reachable = True, modeDetected = True, useRTU = False,
     commandLock = False, coils = replicate (channels c) False, transactionId = 2\<rparr>"

definition online_state :: "config \<Rightarrow> state" where
  "online_state cfg = \<lparr>boardState = map_of (map (\<lambda>(k, c). (k, online_board c)) (BOARDS cfg)),
     closeTimers = [], auditEntries = [], timers = [], nextTimer = 0\<rparr>"

text \<open>The mode and the command lock of a board as the program state has them.\<close>

definition rtu_mode :: "state \<Rightarrow> string \<Rightarrow> bool" where
  "rtu_mode s boardKey = (case boardState s boardKey of Some st \<Rightarrow> useRTU st | None \<Rightarrow> False)"

definition locked :: "state \<Rightarrow> string \<Rightarrow> bool" where
  "locked s boardKey = (case boardState s boardKey of Some st \<Rightarrow> commandLock st | None \<Rightarrow> False)"

text \<open>The two states differ at most in the transaction counter of one board.\<close>

definition tid_only :: "string \<Rightarrow> state \<Rightarrow> state \<Rightarrow> bool" where
  "tid_only boardKey s s' =
     (case boardState s boardKey of
        None \<Rightarrow> s' = s
      | Some st \<Rightarrow>
          s' = s \<or> s' = set_board boardKey (st\<lparr>transactionId := transactionId st + 1\<rparr>) s)"

section \<open>The relay server: audit log and timers\<close>

text \<open>\<^verbatim>\<open>audit\<close> pushes an entry on the ring buffer of the last 500 entries. The copies it
  sends to the log file and to the event-stream clients are outside the program state.\<close>

definition MAX_AUDIT_ENTRIES :: nat where
  "MAX_AUDIT_ENTRIES = 500"

definition audit :: "string \<Rightarrow> details \<Rightarrow> string \<Rightarrow> state \<Rightarrow> state" where
  "audit act det src s =
     (let entries = auditEntries s @ [\<lparr>audit_action = act, audit_source = src, audit_details = det\<rparr>]
      in s\<lparr>auditEntries := (if length entries > MAX_AUDIT_ENTRIES then tl entries else entries)\<rparr>)"

text \<open>\<^verbatim>\<open>closeTimers[barrierId]\<close> is truthy when it holds a handle.\<close>

definition closeTimer :: "state \<Rightarrow> nat \<Rightarrow> nat option" where
  "closeTimer s barrierId = (case map_of (closeTimers s) barrierId of Some (Some h) \<Rightarrow> Some h | _ \<Rightarrow> None)"

definition clearTimeout :: "nat \<Rightarrow> state \<Rightarrow> state" where
  "clearTimeout h s = s\<lparr>timers := filter (\<lambda>(h', cb). h' \<noteq> h) (timers s)\<rparr>"

definition set_closeTimer :: "nat \<Rightarrow> nat option \<Rightarrow> state \<Rightarrow> state" where
  "set_closeTimer barrierId v s = s\<lparr>closeTimers := AList.update barrierId v (closeTimers s)\<rparr>"

text \<open>\<^verbatim>\<open>if (closeTimers[id]) { clearTimeout(closeTimers[id]); closeTimers[id] = null; }\<close>\<close>

definition cancelCloseTimer :: "nat \<Rightarrow> state \<Rightarrow> state" where
  "cancelCloseTimer barrierId s =
     (case closeTimer s barrierId of
        Some h \<Rightarrow> set_closeTimer barrierId None (clearTimeout h s)
      | None \<Rightarrow> s)"

text \<open>\<^verbatim>\<open>closeTimers[id] = setTimeout(callback, CLOSE_RELEASE_MS)\<close>: the callback joins the
  pending timers under a fresh handle.\<close>

definition setCloseTimeout :: "close_release \<Rightarrow> state \<Rightarrow> state" where
  "setCloseTimeout cb s =
     (let h = nextTimer s in
      set_closeTimer (cr_barrierId cb) (Some h)
        (s\<lparr>timers := timers s @ [(h, cb)], nextTimer := h + 1\<rparr>))"

text \<open>The callback of the close timer: release the close coil, record the release under
  the source \<^verbatim>\<open>system\<close>; a failed write is logged to the console only. Either way the
  barrier's entry in \<^verbatim>\<open>closeTimers\<close> is reset at the end.\<close>

definition closeRelease :: "config \<Rightarrow> close_release \<Rightarrow> unit io" where
  "closeRelease cfg cb =
     seq (try_catch
            (seq (writeCoil cfg (cr_board cb) (close (cr_barrier cb)) False) (\<lambda>_.
             upd (audit ''close_auto_release'' (ReleaseDetails (barrier_name (cr_barrier cb))) ''system'')))
            (\<lambda>e. ret ())) (\<lambda>_.
     upd (set_closeTimer (cr_barrierId cb) None))"

section \<open>The relay server: barrier actions\<close>

text \<open>The \<^verbatim>\<open>finally\<close> block of a command: \<^verbatim>\<open>state.commandLock = false\<close> on the board's
  state object.\<close>

definition release_lock :: "string \<Rightarrow> state \<Rightarrow> state" where
  "release_lock boardKey s =
     s\<lparr>boardState := (\<lambda>k. if k = boardKey
          then map_option (\<lambda>st. st\<lparr>commandLock := False\<rparr>) (boardState s k)
          else boardState s k)\<rparr>"

text \<open>\<^verbatim>\<open>barrier[action] + 1\<close>, the channel reported for an action.\<close>

definition action_channel :: "barrier_cfg \<Rightarrow> string \<Rightarrow> nat option" where
  "action_channel barrier act =
     (if act = ''lift'' then Some (lift barrier + 1)
      else if act = ''close'' then Some (close barrier + 1)
      else if act = ''stop'' then Some (stop barrier + 1)
      else None)"

text \<open>The \<^verbatim>\<open>try\<close> block of \<^verbatim>\<open>latchBarrierAction\<close>: the pending close timer is cancelled, the
  conflicting coils are cleared, the target coil is set; a close arms the timer that
  releases the close coil.\<close>

definition latchWrites :: "config \<Rightarrow> string \<Rightarrow> nat \<Rightarrow> barrier_cfg \<Rightarrow> string \<Rightarrow> unit io" where
  "latchWrites cfg boardKey barrierId barrier act =
     (if act = ''lift'' then
        seq (upd (cancelCloseTimer barrierId)) (\<lambda>_.
        seq (writeCoil cfg boardKey (close barrier) False) (\<lambda>_.
        writeCoil cfg boardKey (lift barrier) True))
      else if act = ''close'' then
        seq (upd (cancelCloseTimer barrierId)) (\<lambda>_.
        seq (writeCoil cfg boardKey (lift barrier) False) (\<lambda>_.
        seq (writeCoil cfg boardKey (close barrier) True) (\<lambda>_.
        upd (setCloseTimeout \<lparr>cr_board = boardKey, cr_barrier = barrier,
                              cr_barrierId = barrierId\<rparr>))))
      else if act = ''stop'' then
        seq (upd (cancelCloseTimer barrierId)) (\<lambda>_.
        seq (writeCoil cfg boardKey (lift barrier) False) (\<lambda>_.
        seq (writeCoil cfg boardKey (close barrier) False) (\<lambda>_.
        writeCoil cfg boardKey (stop barrier) True)))
      else ret ())"

definition latchBarrierAction :: "config \<Rightarrow> nat \<Rightarrow> string \<Rightarrow> string \<Rightarrow> unit io" where
  "latchBarrierAction cfg barrierId act src s =
     (case map_of (BARRIERS cfg) barrierId of
        None \<Rightarrow> Threw (UnknownBarrier barrierId) s
      | Some barrier \<Rightarrow>
          let boardKey = board barrier in
          (case boardState s boardKey of
             None \<Rightarrow> Threw TypeError s
           | Some st \<Rightarrow>
               if \<not> reachable st then
                 (case map_of (BOARDS cfg) boardKey of
                    None \<Rightarrow> Threw TypeError s
                  | Some c \<Rightarrow> Threw (NotConnected (board_name c)) s)
               else
                 seq (modify_board boardKey (\<lambda>st. st\<lparr>commandLock := True\<rparr>)) (\<lambda>_.
                 seq (try_finally (latchWrites cfg boardKey barrierId barrier act)
                                  (release_lock boardKey)) (\<lambda>_.
                 upd (audit (''barrier_'' @ act)
                        (BarrierDetails (barrier_name barrier) barrierId (action_channel barrier act))
                        src)))
                 s))"

text \<open>\<^verbatim>\<open>emergencyOff\<close>: the sweep of one board, then all boards in registry order, then the
  close timers, then the audit entry.\<close>

definition sweepBoard :: "config \<Rightarrow> string \<times> board_cfg \<Rightarrow> unit io" where
  "sweepBoard cfg entry s =
     (case entry of (boardKey, c) \<Rightarrow>
        (case boardState s boardKey of
           None \<Rightarrow> Threw TypeError s
         | Some st \<Rightarrow>
             if \<not> reachable st then Done () s
             else
               seq (modify_board boardKey (\<lambda>st. st\<lparr>commandLock := True\<rparr>)) (\<lambda>_.
               try_finally
                 (for_each [0..<channels c] (\<lambda>i. writeCoil cfg boardKey i False))
                 (release_lock boardKey))
               s))"

definition cancelAllCloseTimers :: "state \<Rightarrow> state" where
  "cancelAllCloseTimers s = fold cancelCloseTimer (map fst (closeTimers s)) s"

definition emergencyOff :: "config \<Rightarrow> string \<Rightarrow> unit io" where
  "emergencyOff cfg src =
     seq (for_each (BOARDS cfg) (sweepBoard cfg)) (\<lambda>_.
     seq (upd cancelAllCloseTimers) (\<lambda>_.
     upd (audit ''emergency_off'' (BoardsDetails (map fst (BOARDS cfg))) src)))"

section \<open>The relay server: routes and the event loop\<close>

datatype reply = Success | Status400 error | Status500 error

text \<open>\<^verbatim>\<open>POST /api/barrier/:id/:action\<close>, after the id has been parsed and the action
  lower-cased, and \<^verbatim>\<open>POST /api/emergency-off\<close>.\<close>

definition post_barrier :: "config \<Rightarrow> nat \<Rightarrow> string \<Rightarrow> string \<Rightarrow> reply io" where
  "post_barrier cfg barrierId act src =
     (case map_of (BARRIERS cfg) barrierId of
        None \<Rightarrow> ret (Status400 (UnknownBarrier barrierId))
      | Some barrier \<Rightarrow>
          if act \<notin> set [''lift'', ''close'', ''stop''] then ret (Status400 (UnknownAction act))
          else
            try_catch (seq (latchBarrierAction cfg barrierId act src) (\<lambda>_. ret Success))
                      (\<lambda>err. ret (Status500 err)))"

definition post_emergency_off :: "config \<Rightarrow> string \<Rightarrow> reply io" where
  "post_emergency_off cfg src =
     try_catch (seq (emergencyOff cfg src) (\<lambda>_. ret Success)) (\<lambda>err. ret (Status500 err))"

text \<open>
  What the event loop can be woken by: an HTTP request, the heartbeat interval of a
  board, the socket events of a parked request (by its position among the parked ones),
  and a pending close timer (by its handle). The world is the program state, the calls
  parked at a request, and every request written to a socket so far.
\<close>

datatype loop_event =
    PostBarrier nat string string
  | PostEmergencyOff string
  | HeartbeatTick string
  | Response nat "event list"
  | TimerFires nat

record world =
  program :: state
  parked :: "(request \<times> (event list \<Rightarrow> state \<Rightarrow> (request, event list, state, unit) task)) list"
  wire :: "request list"

definition forget :: "'a io \<Rightarrow> unit io" where
  "forget m = seq m (\<lambda>_. ret ())"

text \<open>A call has run up to its next \<^verbatim>\<open>await\<close>, or to its end: the state is the one it
  leaves, and a pending request is written and parked.\<close>

definition settle :: "(request, event list, state, unit) task \<Rightarrow> world \<Rightarrow> world" where
  "settle t w =
     (case t of
        Done _ s \<Rightarrow> w\<lparr>program := s\<rparr>
      | Threw _ s \<Rightarrow> w\<lparr>program := s\<rparr>
      | Await q s k \<Rightarrow> w\<lparr>program := s, parked := parked w @ [(q, k)], wire := wire w @ [q]\<rparr>)"

fun loop_step :: "config \<Rightarrow> loop_event \<Rightarrow> world \<Rightarrow> world" where
  "loop_step cfg (PostBarrier barrierId act src) w =
     settle (forget (post_barrier cfg barrierId act src) (program w)) w"
| "loop_step cfg (PostEmergencyOff src) w =
     settle (forget (post_emergency_off cfg src) (program w)) w"
| "loop_step cfg (HeartbeatTick boardKey) w =
     settle (heartbeatBoard cfg boardKey (program w)) w"
| "loop_step cfg (Response n events) w =
     (if n < length (parked w) then
        settle (snd (parked w ! n) events (program w))
               (w\<lparr>parked := take n (parked w) @ drop (Suc n) (parked w)\<rparr>)
      else w)"
| "loop_step cfg (TimerFires h) w =
     (case map_of (timers (program w)) h of
        None \<Rightarrow> w
      | Some cb \<Rightarrow> settle (closeRelease cfg cb (clearTimeout h (program w))) w)"

fun event_loop :: "config \<Rightarrow> loop_event list \<Rightarrow> world \<Rightarrow> world" where
  "event_loop cfg [] w = w"
| "event_loop cfg (e # es) w = event_loop cfg es (loop_step cfg e w)"

definition boot :: "state \<Rightarrow> world" where
  "boot s = \<lparr>program = s, parked = [], wire = []\<rparr>"

section \<open>Scenarios\<close>

text \<open>
  Two lift requests for barriers of the same board, the second arriving while the first
  write of the first is unanswered; the second action is answered twice and ends; then
  the heartbeat of the board comes round. The responses are the echoes of the writes,
  framed as Modbus/TCP.
\<close>

definition overlap_events :: "loop_event list" where
  "overlap_events =
     [PostBarrier 1 ''lift'' ''api'',
      PostBarrier 2 ''lift'' ''api'',
      Response 1 [Data [0, 4, 0, 0, 0, 6, 1, 5, 0, 4, 0, 0]],
      Response 1 [Data [0, 5, 0, 0, 0, 6, 1, 5, 0, 3, 0xFF, 0]],
      HeartbeatTick ''board1'']"

text \<open>
  Two close requests for the same barrier, the second arriving while the first write of
  the first is unanswered; every write is answered in the order it was sent. Then a
  lift request, answered twice, then the timer with handle 0 fires and its write is
  answered.
\<close>

definition double_close_events :: "loop_event list" where
  "double_close_events =
     [PostBarrier 1 ''close'' ''api'',
      PostBarrier 1 ''close'' ''api'',
      Response 0 [Data [0, 3, 0, 0, 0, 6, 1, 5, 0, 0, 0, 0]],
      Response 0 [Data [0, 4, 0, 0, 0, 6, 1, 5, 0, 0, 0, 0]],
      Response 0 [Data [0, 5, 0, 0, 0, 6, 1, 5, 0, 1, 0xFF, 0]],
      Response 0 [Data [0, 6, 0, 0, 0, 6, 1, 5, 0, 1, 0xFF, 0]],
      PostBarrier 1 ''lift'' ''api'',
      Response 0 [Data [0, 7, 0, 0, 0, 6, 1, 5, 0, 1, 0, 0]],
      Response 0 [Data [0, 8, 0, 0, 0, 6, 1, 5, 0, 0, 0xFF, 0]],
      TimerFires 0,
      Response 0 [Data [0, 9, 0, 0, 0, 6, 1, 5, 0, 1, 0, 0]]]"

text \<open>A close request and then a lift request for the same barrier, one after the
  other, every write answered.\<close>

definition close_then_lift_events :: "loop_event list" where
  "close_then_lift_events =
     [PostBarrier 1 ''close'' ''api'',
      Response 0 [Data [0, 3, 0, 0, 0, 6, 1, 5, 0, 0, 0, 0]],
      Response 0 [Data [0, 4, 0, 0, 0, 6, 1, 5, 0, 1, 0xFF, 0]],
      PostBarrier 1 ''lift'' ''api'',
      Response 0 [Data [0, 5, 0, 0, 0, 6, 1, 5, 0, 1, 0, 0]],
      Response 0 [Data [0, 6, 0, 0, 0, 6, 1, 5, 0, 0, 0xFF, 0]]]"

text \<open>Two heartbeats at start-up, one per board, each with its probe and its read
  answered.\<close>

definition startup_events :: "loop_event list" where
  "startup_events =
     [HeartbeatTick ''board1'',
      Response 0 [Data [0, 1, 0, 0, 0, 4, 1, 1, 1, 0]],
      Response 0 [Data [0, 2, 0, 0, 0, 4, 1, 1, 1, 0]],
      HeartbeatTick ''board2'',
      Response 0 [Data [0, 1, 0, 0, 0, 4, 1, 1, 1, 0]],
      Response 0 [Data [0, 2, 0, 0, 0, 4, 1, 1, 1, 0]]]"

section \<open>Properties of the CRC\<close>

lemma crc_shift_xor: "crc_shift (a XOR b) = crc_shift a XOR crc_shift b"
proof -
  have "(a XOR b) AND 1 = (a AND 1) XOR (b AND 1)"
    by (simp add: bit.conj_xor_distrib2)
  moreover have "a AND 1 = 0 \<or> a AND 1 = 1" "b AND 1 = 0 \<or> b AND 1 = 1"
    by (cases "even a"; simp add: and_one_eq mod_2_eq_odd; fail)
       (cases "even b"; simp add: and_one_eq mod_2_eq_odd; fail)
  ultimately show ?thesis
    unfolding crc_shift_def
    by (auto simp: drop_bit_xor ac_simps)
qed

text \<open>The polynomial has its top bit set, so a shift maps only 0 to 0.\<close>

lemma crc_shift_zero: "crc_shift a = 0 \<longleftrightarrow> a = 0"
proof
  assume z: "crc_shift a = 0"
  show "a = 0"
  proof (cases "a AND 1 = 0")
    case True
    with z have d: "drop_bit 1 a = 0" by (simp add: crc_shift_def)
    show ?thesis
    proof (rule bit_word_eqI)
      fix n assume "n < LENGTH(16)"
      show "bit a n = bit (0 :: 16 word) n"
      proof (cases n)
        case 0
        from True have "\<not> bit a 0" by (simp add: and_one_eq bit_0 mod_2_eq_odd)
        with 0 show ?thesis by simp
      next
        case (Suc m)
        have "bit (drop_bit 1 a) m = bit a (Suc m)" by (simp add: bit_drop_bit_eq)
        with d Suc show ?thesis by simp
      qed
    qed
  next
    case False
    with z have "drop_bit 1 a XOR 0xA001 = 0" by (simp add: crc_shift_def)
    then have "bit (drop_bit 1 a XOR (0xA001 :: 16 word)) 15 = bit (0 :: 16 word) 15" by simp
    moreover have "\<not> bit (drop_bit 1 a) 15"
      using bit_imp_le_length[of a 16] by (auto simp add: bit_drop_bit_eq simp del: bit_0)
    moreover have "bit (0xA001 :: 16 word) 15" by simp
    ultimately show ?thesis
      by (simp add: bit_xor_iff del: bit_0)
  qed
next
  assume "a = 0" then show "crc_shift a = 0" by (simp add: crc_shift_def)
qed

lemma crc_bits_xor: "crc_bits n (a XOR b) = crc_bits n a XOR crc_bits n b"
  by (induction n arbitrary: a b) (simp_all add: crc_shift_xor)

lemma crc_bits_zero: "crc_bits n a = 0 \<longleftrightarrow> a = 0"
  by (induction n arbitrary: a) (simp_all add: crc_shift_zero)

lemma word_xor_eq_zero: "a XOR b = 0 \<longleftrightarrow> a = (b :: 'a :: len word)"
proof
  assume "a XOR b = 0"
  then have "(a XOR b) XOR b = b" by simp
  then show "a = b" by (simp add: xor.assoc)
qed simp

lemma word_xor_left_cancel: "c XOR a = c XOR b \<longleftrightarrow> a = (b :: 'a :: len word)"
proof
  assume "c XOR a = c XOR b"
  then have "c XOR (c XOR a) = c XOR (c XOR b)" by simp
  then show "a = b" by (simp add: xor.assoc [symmetric])
qed simp

lemma word_xor_right_cancel: "a XOR c = b XOR c \<longleftrightarrow> a = (b :: 'a :: len word)"
  using word_xor_left_cancel [of c a b] by (simp add: xor.commute)

lemma crc_bits_inj: "crc_bits n a = crc_bits n b \<longleftrightarrow> a = b"
proof -
  have "crc_bits n a = crc_bits n b \<longleftrightarrow> crc_bits n a XOR crc_bits n b = 0"
    by (simp add: word_xor_eq_zero)
  also have "\<dots> \<longleftrightarrow> a XOR b = 0"
    by (simp only: crc_bits_xor [symmetric] crc_bits_zero)
  also have "\<dots> \<longleftrightarrow> a = b" by (simp add: word_xor_eq_zero)
  finally show ?thesis .
qed

lemma ucast_byte_inj: "(ucast (x :: byte) :: 16 word) = ucast y \<longleftrightarrow> x = y"
proof
  assume eq: "(ucast x :: 16 word) = ucast y"
  show "x = y"
  proof (rule bit_word_eqI)
    fix n assume "n < LENGTH(8)"
    then have "bit x n = bit (ucast x :: 16 word) n" "bit y n = bit (ucast y :: 16 word) n"
      by (simp_all add: bit_ucast_iff)
    with eq show "bit x n = bit y n" by simp
  qed
qed simp

lemma crc_byte_inj_crc: "crc_byte c b = crc_byte d b \<longleftrightarrow> c = d"
  by (simp add: crc_byte_def crc_bits_inj word_xor_right_cancel)

lemma crc_byte_inj_byte: "crc_byte c x = crc_byte c y \<longleftrightarrow> x = y"
  by (simp add: crc_byte_def crc_bits_inj ucast_byte_inj word_xor_left_cancel)

lemma foldl_crc_inj: "foldl crc_byte c bs = foldl crc_byte d bs \<longleftrightarrow> c = d"
  by (induction bs arbitrary: c d) (simp_all add: crc_byte_inj_crc)

text \<open>Changing one byte of a buffer changes its CRC.\<close>

lemma crc16_update:
  assumes "i < length bs" "v \<noteq> bs ! i"
  shows "crc16 (bs[i := v]) \<noteq> crc16 bs"
proof -
  have bs: "bs = take i bs @ bs ! i # drop (Suc i) bs"
    using assms(1) by (simp add: id_take_nth_drop)
  have up: "bs[i := v] = take i bs @ v # drop (Suc i) bs"
    using assms(1) by (simp add: upd_conv_take_nth_drop)
  have "foldl crc_byte 0xFFFF (take i bs @ v # drop (Suc i) bs)
      \<noteq> foldl crc_byte 0xFFFF (take i bs @ bs ! i # drop (Suc i) bs)"
    using assms(2) by (simp add: foldl_crc_inj crc_byte_inj_byte)
  then show ?thesis
    unfolding crc16_def using bs up by metis
qed

lemma readUInt16LE_uint16LE:
  "readUInt16LE (bs @ uint16LE v) (length bs) = v"
  unfolding readUInt16LE_def uint16LE_def
  by (simp add: nth_append)
     (rule bit_word_eqI, auto simp: bit_or_iff bit_ucast_iff bit_push_bit_iff bit_drop_bit_eq)

lemma length_appendCRC: "length (appendCRC bs) = length bs + 2"
  by (simp add: appendCRC_def uint16LE_def)

lemma verifyCRC_appendCRC: "2 \<le> length bs \<Longrightarrow> verifyCRC (appendCRC bs)"
proof -
  assume "2 \<le> length bs"
  moreover have "take (length bs) (appendCRC bs) = bs"
    by (simp add: appendCRC_def)
  moreover have "readUInt16LE (appendCRC bs) (length bs) = crc16 bs"
    by (simp add: appendCRC_def readUInt16LE_uint16LE)
  ultimately show ?thesis
    by (simp add: verifyCRC_def length_appendCRC)
qed

lemma le16_inj:
  "(ucast (a :: byte) OR push_bit 8 (ucast (b :: byte)) :: 16 word)
     = ucast c OR push_bit 8 (ucast d) \<longleftrightarrow> a = c \<and> b = d"
proof
  assume eq: "(ucast a OR push_bit 8 (ucast b) :: 16 word) = ucast c OR push_bit 8 (ucast d)"
  have lo: "bit a n = bit (ucast a OR push_bit 8 (ucast b) :: 16 word) n"
   and hi: "bit b n = bit (ucast a OR push_bit 8 (ucast b) :: 16 word) (n + 8)"
    if "n < 8" for n and a b :: byte
    using that by (auto simp: bit_or_iff bit_ucast_iff bit_push_bit_iff dest: bit_imp_le_length)
  show "a = c \<and> b = d"
  proof
    show "a = c"
    proof (rule bit_word_eqI)
      fix n assume "n < LENGTH(8)"
      then have n: "n < 8" by simp
      show "bit a n = bit c n"
        using lo [OF n, of a b] lo [OF n, of c d] eq by simp
    qed
    show "b = d"
    proof (rule bit_word_eqI)
      fix n assume "n < LENGTH(8)"
      then have n: "n < 8" by simp
      show "bit b n = bit d n"
        using hi [OF n, of b a] hi [OF n, of d c] eq by simp
    qed
  qed
qed simp

lemma readUInt16LE_tail:
  "readUInt16LE (bs @ [a, b]) (length bs) = ucast a OR push_bit 8 (ucast b)"
  by (simp add: readUInt16LE_def nth_append)

text \<open>Changing one byte of a buffer that ends in its CRC, in the data or in the CRC
  itself, is detected.\<close>

lemma verifyCRC_update:
  assumes i: "i < length (appendCRC bs)" and v: "v \<noteq> appendCRC bs ! i"
  shows "\<not> verifyCRC ((appendCRC bs)[i := v])"
proof (cases "length bs < 2")
  case True
  then show ?thesis by (simp add: verifyCRC_def length_appendCRC)
next
  case False
  define lo hi :: byte where "lo = ucast (crc16 bs)" and "hi = ucast (drop_bit 8 (crc16 bs))"
  have app: "appendCRC bs = bs @ [lo, hi]"
    by (simp add: appendCRC_def uint16LE_def lo_def hi_def)
  have rd: "readUInt16LE (bs @ [lo, hi]) (length bs) = crc16 bs"
    using readUInt16LE_uint16LE [of bs "crc16 bs"] by (simp add: uint16LE_def lo_def hi_def)
  show ?thesis
  proof (cases "i < length bs")
    case True
    with v have "v \<noteq> bs ! i" by (simp add: app nth_append)
    with True have "crc16 (bs[i := v]) \<noteq> crc16 bs" by (rule crc16_update)
    moreover have "(appendCRC bs)[i := v] = bs[i := v] @ [lo, hi]"
      using True by (simp add: app list_update_append)
    ultimately show ?thesis
      using rd readUInt16LE_tail [of "bs[i := v]" lo hi] readUInt16LE_tail [of bs lo hi]
      by (simp add: verifyCRC_def)
  next
    case False
    with i have "i = length bs \<or> i = Suc (length bs)"
      by (auto simp: length_appendCRC)
    then obtain a b where ab: "(appendCRC bs)[i := v] = bs @ [a, b]" "(a, b) \<noteq> (lo, hi)"
      using v by (auto simp: app list_update_append nth_append)
    have "(ucast a OR push_bit 8 (ucast b) :: 16 word) \<noteq> ucast lo OR push_bit 8 (ucast hi)"
      using ab(2) by (simp only: le16_inj) simp
    then have "readUInt16LE (bs @ [a, b]) (length bs) \<noteq> crc16 bs"
      using rd by (simp only: readUInt16LE_tail) simp
    then show ?thesis
      by (simp add: ab(1) verifyCRC_def)
  qed
qed

lemma push_bit_1_byte_nonzero: "n < 8 \<Longrightarrow> push_bit n (1 :: byte) \<noteq> 0"
proof
  assume n: "n < 8" and z: "push_bit n (1 :: byte) = 0"
  from n have "bit (push_bit n (1 :: byte)) n"
    by (simp add: bit_push_bit_iff bit_exp_iff del: push_bit_of_1)
  with z have "bit (0 :: byte) n" by (simp only:)
  then show False by simp
qed

lemma flip_bit_at_detected:
  assumes "k < 8 * length (appendCRC bs)"
  shows "\<not> verifyCRC (flip_bit_at k (appendCRC bs))"
proof -
  have "k div 8 < length (appendCRC bs)" using assms by simp
  moreover have "appendCRC bs ! (k div 8) XOR push_bit (k mod 8) 1 \<noteq> appendCRC bs ! (k div 8)"
    using push_bit_1_byte_nonzero [of "k mod 8"]
      word_xor_left_cancel [of "appendCRC bs ! (k div 8)" "push_bit (k mod 8) 1" 0]
    by simp
  ultimately show ?thesis
    unfolding flip_bit_at_def by (rule verifyCRC_update)
qed

text \<open>The check value of CRC-16/MODBUS: the CRC of the ASCII digits \<^verbatim>\<open>123456789\<close> is
  \<^verbatim>\<open>0x4B37\<close>; and a Write Single Coil request as the relay boards document it.\<close>

lemma crc16_check_value: "crc16 [0x31, 0x32, 0x33, 0x34, 0x35, 0x36, 0x37, 0x38, 0x39] = 0x4B37"
  by code_simp

lemma appendCRC_write_coil: "appendCRC [1, 5, 0, 0, 0xFF, 0] = [1, 5, 0, 0, 0xFF, 0, 0x8C, 0x3A]"
  by code_simp

text \<open>
  C5 (amended). \<^verbatim>\<open>verifyCRC\<close> refuses every buffer of fewer than four bytes, so the
  round trip \<open>verifyCRC (appendCRC bytes)\<close> holds for every byte sequence of at least two
  bytes. For every byte sequence, of any length, a flip of any single bit of
  \<open>appendCRC bytes\<close> makes \<^verbatim>\<open>verifyCRC\<close> fail. The CRC is the one of \<^verbatim>\<open>crc16\<close>: register
  initialised to \<^verbatim>\<open>0xFFFF\<close>, bytes taken least significant bit first with the polynomial
  \<^verbatim>\<open>0xA001\<close>, appended low byte first.
\<close>

theorem crc_round_trip:
  "(2 \<le> length bytes \<longrightarrow> verifyCRC (appendCRC bytes)) \<and>
   (\<forall>k < 8 * length (appendCRC bytes). \<not> verifyCRC (flip_bit_at k (appendCRC bytes)))"
  using verifyCRC_appendCRC flip_bit_at_detected by blast

theorem crc_round_trip_witness:
  "2 \<le> length [1, 5, 0, 0, 0xFF, 0 :: byte] \<and> verifyCRC (appendCRC [1, 5, 0, 0, 0xFF, 0]) \<and>
   (11 :: nat) < 8 * length (appendCRC [1, 5, 0, 0, 0xFF, 0]) \<and>
   \<not> verifyCRC (flip_bit_at 11 (appendCRC [1, 5, 0, 0, 0xFF, 0]))"
proof -
  have len: "2 \<le> length [1, 5, 0, 0, 0xFF, 0 :: byte]" by simp
  have k: "(11 :: nat) < 8 * length (appendCRC [1, 5, 0, 0, 0xFF, 0])"
    by (simp add: length_appendCRC)
  from crc_round_trip [of "[1, 5, 0, 0, 0xFF, 0]"] len k show ?thesis by blast
qed

text \<open>The claim as stated fails for the empty byte sequence: its CRC is appended, and
  the two bytes that result are refused.\<close>

theorem crc_round_trip_counterexample:
  "appendCRC [] = [0xFF, 0xFF] \<and> \<not> verifyCRC (appendCRC [])"
  by (simp add: verifyCRC_def appendCRC_def uint16LE_def crc16_def)

section \<open>Properties of the frame parsers\<close>

lemma and_then_simps [simp]: "and_then (Inr x) f = f x" "and_then (Inl e) f = Inl e"
  by (simp_all add: and_then_def)

lemma parseRTU_complete:
  assumes len: "5 \<le> length f" and fc: "f ! 1 = fc" "fc = 0x01 \<or> fc = 0x05"
    and exp: "(if fc = 0x01 then 3 + unat (f ! 2) + 2 else 8) = length f"
    and crc: "verifyCRC f"
  shows "parseRTUResponse f = Inr (Some (buf_slice 1 (length f - 2) f))"
proof -
  from fc(2) show ?thesis
  proof
    assume "fc = 0x01"
    with exp have "3 + unat (f ! 2) + 2 = length f" by simp
    with len fc(1) \<open>fc = 0x01\<close> crc show ?thesis
      by (simp add: parseRTUResponse_def buf_slice_def)
  next
    assume "fc = 0x05"
    with exp have "length f = 8" by simp
    with fc(1) \<open>fc = 0x05\<close> crc show ?thesis
      by (simp add: parseRTUResponse_def buf_slice_def)
  qed
qed

lemma parseRTU_short:
  assumes len: "5 \<le> length f" and fc: "f ! 1 = fc" "fc = 0x01 \<or> fc = 0x05"
    and exp: "length f < (if fc = 0x01 then 3 + unat (f ! 2) + 2 else 8)"
  shows "parseRTUResponse f = Inr None"
proof -
  from fc(2) show ?thesis
  proof
    assume "fc = 0x01"
    with exp have "length f < 3 + unat (f ! 2) + 2" by simp
    with len fc(1) \<open>fc = 0x01\<close> show ?thesis
      by (simp add: parseRTUResponse_def buf_slice_def)
  next
    assume "fc = 0x05"
    with exp have "length f < 8" by simp
    with len fc(1) \<open>fc = 0x05\<close> show ?thesis
      by (simp add: parseRTUResponse_def buf_slice_def)
  qed
qed

lemma valid_rtu_parse:
  assumes "valid_rtu_response frame"
  shows "parseRTUResponse frame = Inr (Some (buf_slice 1 (length frame - 2) frame))"
proof (rule parseRTU_complete [where fc = "frame ! 1"])
  show "5 \<le> length frame" "verifyCRC frame" "frame ! 1 = 0x01 \<or> frame ! 1 = 0x05"
    using assms by (auto simp: valid_rtu_response_def)
  show "(if frame ! 1 = 0x01 then 3 + unat (frame ! 2) + 2 else 8) = length frame"
    using assms by (auto simp: valid_rtu_response_def)
qed simp

lemma valid_rtu_prefix:
  assumes v: "valid_rtu_response frame" and n: "n < length frame"
  shows "parseRTUResponse (take n frame) = Inr None"
proof (cases "n < 5")
  case True
  with n show ?thesis by (simp add: parseRTUResponse_def)
next
  case False
  show ?thesis
  proof (rule parseRTU_short [where fc = "frame ! 1"])
    show "5 \<le> length (take n frame)" using False n by simp
    show "take n frame ! 1 = frame ! 1" using False by simp
    show "frame ! 1 = 0x01 \<or> frame ! 1 = 0x05"
      using v by (auto simp: valid_rtu_response_def)
    have "take n frame ! 2 = frame ! 2" using False by simp
    then show "length (take n frame)
        < (if frame ! 1 = 0x01 then 3 + unat (take n frame ! 2) + 2 else 8)"
      using v n by (auto simp: valid_rtu_response_def)
  qed
qed

text \<open>Chunks that make up a valid frame, fed one by one to the \<^verbatim>\<open>data\<close> handler in RTU
  mode: nothing is settled before the last byte is in, and the frame's PDU is the
  result whatever the socket does afterwards.\<close>

lemma on_data_chunks:
  assumes v: "valid_rtu_response frame"
  shows "length buf < length frame \<Longrightarrow> buf @ concat chunks = frame \<Longrightarrow>
         on_data True buf (map Data chunks @ rest) = Inr (buf_slice 1 (length frame - 2) frame)"
proof (induction chunks arbitrary: buf)
  case Nil
  then show ?case by simp
next
  case (Cons c chunks)
  show ?case
  proof (cases "length (buf @ c) < length frame")
    case True
    have "buf @ c = take (length (buf @ c)) frame"
      using Cons.prems(2) by (metis append.assoc append_eq_conv_conj concat.simps(2))
    then have "parseRTUResponse (buf @ c) = Inr None"
      using valid_rtu_prefix [OF v True] by metis
    moreover have "on_data True (buf @ c) (map Data chunks @ rest)
        = Inr (buf_slice 1 (length frame - 2) frame)"
      using Cons.IH [OF True] Cons.prems(2) by simp
    ultimately show ?thesis by simp
  next
    case False
    have "length frame = length (buf @ c) + length (concat chunks)"
      using Cons.prems(2) by (metis append.assoc concat.simps(2) length_append)
    with False have "length (concat chunks) = 0" by simp
    then have "concat chunks = []" by (simp only: length_0_conv)
    then have "buf @ c = frame"
      using Cons.prems(2) by (simp only: concat.simps append_assoc [symmetric] append_Nil2)
    then show ?thesis using valid_rtu_parse [OF v] by simp
  qed
qed

text \<open>
  C6. For every valid RTU response frame (Read Coils or Write Coil shape with a correct
  CRC), \<^verbatim>\<open>parseRTUResponse\<close> returns \<^verbatim>\<open>null\<close> on every strict prefix of the frame, never a
  PDU and never a CRC failure, and on the complete frame it returns the function code
  and data (the frame without unit id and CRC). Fed to the \<^verbatim>\<open>data\<close> handler in any split
  into chunks, the frame settles the request once, with that PDU.
\<close>

theorem rtu_partial_frames:
  assumes "valid_rtu_response frame"
  shows "(\<forall>n < length frame. parseRTUResponse (take n frame) = Inr None) \<and>
         parseRTUResponse frame = Inr (Some (buf_slice 1 (length frame - 2) frame)) \<and>
         (\<forall>chunks rest. concat chunks = frame \<longrightarrow>
            on_data True [] (map Data chunks @ rest) = Inr (buf_slice 1 (length frame - 2) frame))"
proof (intro conjI allI impI)
  fix n assume "n < length frame"
  then show "parseRTUResponse (take n frame) = Inr None"
    by (rule valid_rtu_prefix [OF assms])
next
  show "parseRTUResponse frame = Inr (Some (buf_slice 1 (length frame - 2) frame))"
    by (rule valid_rtu_parse [OF assms])
next
  fix chunks rest assume "concat chunks = frame"
  moreover have "length ([] :: buffer) < length frame"
    using assms by (auto simp: valid_rtu_response_def)
  ultimately show "on_data True [] (map Data chunks @ rest)
      = Inr (buf_slice 1 (length frame - 2) frame)"
    using on_data_chunks [OF assms, of "[]" chunks rest] by simp
qed

lemma valid_write_coil_echo: "valid_rtu_response [1, 5, 0, 0, 0xFF, 0, 0x8C, 0x3A]"
  unfolding valid_rtu_response_def by (intro conjI disjI2; code_simp)

theorem rtu_partial_frames_witness:
  "valid_rtu_response [1, 5, 0, 0, 0xFF, 0, 0x8C, 0x3A] \<and>
   (5 :: nat) < length [1, 5, 0, 0, 0xFF, 0, 0x8C, 0x3A :: byte] \<and>
   parseRTUResponse (take 5 [1, 5, 0, 0, 0xFF, 0, 0x8C, 0x3A]) = Inr None \<and>
   parseRTUResponse [1, 5, 0, 0, 0xFF, 0, 0x8C, 0x3A] = Inr (Some [5, 0, 0, 0xFF, 0]) \<and>
   concat [[1, 5, 0], [0, 0xFF], [0, 0x8C, 0x3A]] = [1, 5, 0, 0, 0xFF, 0, 0x8C, 0x3A :: byte] \<and>
   on_data True [] (map Data [[1, 5, 0], [0, 0xFF], [0, 0x8C, 0x3A]] @ [Close])
     = Inr [5, 0, 0, 0xFF, 0]"
proof -
  have c: "concat [[1, 5, 0], [0, 0xFF], [0, 0x8C, 0x3A]] = [1, 5, 0, 0, 0xFF, 0, 0x8C, 0x3A :: byte]"
    by simp
  have n: "(5 :: nat) < length [1, 5, 0, 0, 0xFF, 0, 0x8C, 0x3A :: byte]" by simp
  have s: "buf_slice 1 (length [1, 5, 0, 0, 0xFF, 0, 0x8C, 0x3A :: byte] - 2)
             [1, 5, 0, 0, 0xFF, 0, 0x8C, 0x3A :: byte] = [5, 0, 0, 0xFF, 0]"
    by (simp add: buf_slice_def)
  from rtu_partial_frames [OF valid_write_coil_echo] valid_write_coil_echo c n s
  show ?thesis by metis
qed

lemma shape_nonempty: "response_shape fc payload \<Longrightarrow> payload \<noteq> []"
  by (auto simp: response_shape_def isReadCoilsPayload_def isWriteCoilPayload_def)

lemma shape_length: "response_shape fc payload \<Longrightarrow> length payload \<le> 256"
  using unsigned_less [of "hd payload", where 'a = nat]
  by (auto simp: response_shape_def isReadCoilsPayload_def isWriteCoilPayload_def
      split: list.splits)

lemma length_buildRTUFrame: "length (buildRTUFrame u fc payload) = length payload + 4"
  by (simp add: buildRTUFrame_def length_appendCRC)

text \<open>A frame that \<^verbatim>\<open>buildRTUFrame\<close> makes of a well-shaped payload is a valid response.\<close>

lemma buildRTUFrame_valid:
  assumes sh: "response_shape fc payload"
  shows "valid_rtu_response (buildRTUFrame u fc payload)"
proof -
  obtain b rest where p: "payload = b # rest"
    using shape_nonempty [OF sh] by (cases payload) auto
  have crc: "verifyCRC (buildRTUFrame u fc payload)"
    unfolding buildRTUFrame_def by (rule verifyCRC_appendCRC) simp
  have n1: "buildRTUFrame u fc payload ! 1 = fc" and n2: "buildRTUFrame u fc payload ! 2 = b"
    by (simp_all add: buildRTUFrame_def appendCRC_def p)
  from sh have "fc = 0x01 \<and> unat b = length rest \<or> fc = 0x05 \<and> length payload = 4"
    by (auto simp: response_shape_def isReadCoilsPayload_def isWriteCoilPayload_def p)
  then show ?thesis
    unfolding valid_rtu_response_def n1 n2 length_buildRTUFrame
    using crc by (auto simp: p)
qed

lemma buildRTUFrame_pdu:
  "buf_slice 1 (length (buildRTUFrame u fc payload) - 2) (buildRTUFrame u fc payload) = fc # payload"
  by (simp add: buf_slice_def buildRTUFrame_def appendCRC_def uint16LE_def)

lemma tcpFrame_ok:
  assumes "u \<le> 255" "tid \<le> 65535" "length payload \<le> 256"
  shows "tcpFrame tid u fc payload =
           Inr ([of_nat (tid div 256), of_nat (tid mod 256), 0, 0,
                 of_nat ((length payload + 2) div 256), of_nat ((length payload + 2) mod 256),
                 of_nat u] @ fc # payload)"
  using assms by (simp add: tcpFrame_def uint16BE_def uint8_def Let_def)

lemma parseTCP_tcpFrame:
  assumes sh: "response_shape fc payload" and u: "u \<le> 255" and t: "tid \<le> 65535"
  shows "\<exists>frame. tcpFrame tid u fc payload = Inr frame \<and>
           parseTCPResponse frame = Inr (Some (fc # payload))"
proof -
  have ne: "payload \<noteq> []" by (rule shape_nonempty [OF sh])
  have fc: "fc AND 0x80 = 0" using sh by (auto simp: response_shape_def)
  have "parseTCPResponse ([a, b, c, d, e, f, g] @ fc # payload) = Inr (Some (fc # payload))"
    for a b c d e f g
    using ne fc by (cases payload) (simp_all add: parseTCPResponse_def)
  then show ?thesis
    using tcpFrame_ok [OF u t shape_length [OF sh]] by simp
qed

text \<open>
  C7. For every Read Coils and Write Coil response shape (function code and payload, a
  Read Coils payload being a byte count followed by that many data bytes, one, two or
  more), the frame that \<^verbatim>\<open>buildTCPFrame\<close> builds for a board, whatever its transaction
  counter, is parsed by \<^verbatim>\<open>parseTCPResponse\<close> into the function code followed by the
  payload, and so is by \<^verbatim>\<open>parseRTUResponse\<close> the frame that \<^verbatim>\<open>buildRTUFrame\<close> builds.
  \<^verbatim>\<open>buildTCPFrame\<close> needs a unit id that fits a byte.
\<close>

theorem frame_round_trip:
  assumes "response_shape fc payload"
  shows "(u \<le> 255 \<and> boardState s boardKey \<noteq> None \<longrightarrow>
            (\<exists>frame s'. buildTCPFrame boardKey u fc payload s = (Inr frame, s') \<and>
               parseTCPResponse frame = Inr (Some (fc # payload)))) \<and>
         parseRTUResponse (buildRTUFrame u fc payload) = Inr (Some (fc # payload))"
proof (intro conjI impI)
  assume a: "u \<le> 255 \<and> boardState s boardKey \<noteq> None"
  then obtain st where st: "boardState s boardKey = Some st" by auto
  have "(transactionId st + 1) mod 65536 \<le> 65535" by simp
  from parseTCP_tcpFrame [OF assms _ this, of u] a
  obtain frame where "tcpFrame ((transactionId st + 1) mod 65536) u fc payload = Inr frame"
    "parseTCPResponse frame = Inr (Some (fc # payload))" by auto
  then show "\<exists>frame s'. buildTCPFrame boardKey u fc payload s = (Inr frame, s') \<and>
      parseTCPResponse frame = Inr (Some (fc # payload))"
    by (simp add: buildTCPFrame_def st Let_def)
next
  show "parseRTUResponse (buildRTUFrame u fc payload) = Inr (Some (fc # payload))"
    using valid_rtu_parse [OF buildRTUFrame_valid [OF assms, of u]]
    by (simp only: buildRTUFrame_pdu)
qed

text \<open>Nine coils take two data bytes: a Read Coils response for unit 1 in both
  framings, on the first board of the registry.\<close>

theorem frame_round_trip_witness:
  "response_shape 0x01 [2, 0xFF, 0x01] \<and>
   (1 :: nat) \<le> 255 \<and> boardState (initial_state default_config) ''board1'' \<noteq> None \<and>
   (\<exists>frame s'. buildTCPFrame ''board1'' 1 0x01 [2, 0xFF, 0x01] (initial_state default_config)
        = (Inr frame, s') \<and>
      parseTCPResponse frame = Inr (Some [0x01, 2, 0xFF, 0x01])) \<and>
   parseRTUResponse (buildRTUFrame 1 0x01 [2, 0xFF, 0x01]) = Inr (Some [0x01, 2, 0xFF, 0x01])"
proof -
  have sh: "response_shape 0x01 [2, 0xFF, 0x01]"
    by (simp add: response_shape_def isReadCoilsPayload_def)
  have b: "boardState (initial_state default_config) ''board1'' \<noteq> None"
    by (simp add: initial_state_def default_config_def)
  from frame_round_trip [OF sh, of 1 "initial_state default_config" "''board1''"] sh b
  show ?thesis by simp
qed

section \<open>Running a call to its end\<close>

text \<open>\<^const>\<open>run\<close> goes through the statements of an \<^verbatim>\<open>async\<close> body as an interpreter
  with exceptions would.\<close>

lemma run_bind:
  "run d (bind_task t f) net =
     (case run d t net of
        (Returned a, s', tr, net') \<Rightarrow>
          (case run d (f a s') net' of (r, s'', tr', net'') \<Rightarrow> (r, s'', tr @ tr', net''))
      | (Raised e, s', tr, net') \<Rightarrow> (Raised e, s', tr, net'))"
proof (induction t arbitrary: net)
  case (Await q s k)
  show ?case
    by (simp add: Await.IH [OF rangeI rangeI] split: prod.splits result.splits)
qed (simp_all split: prod.splits)

lemma run_catch:
  "run d (catch_task t h) net =
     (case run d t net of
        (Returned a, s', tr, net') \<Rightarrow> (Returned a, s', tr, net')
      | (Raised e, s', tr, net') \<Rightarrow>
          (case run d (h e s') net' of (r, s'', tr', net'') \<Rightarrow> (r, s'', tr @ tr', net'')))"
proof (induction t arbitrary: net)
  case (Await q s k)
  show ?case
    by (simp add: Await.IH [OF rangeI rangeI] split: prod.splits result.splits)
qed (simp_all split: prod.splits)

lemma run_finally:
  "run d (finally_task t fin) net =
     (case run d t net of (r, s', tr, net') \<Rightarrow> (r, fin s', tr, net'))"
proof (induction t arbitrary: net)
  case (Await q s k)
  show ?case
    by (simp add: Await.IH [OF rangeI rangeI] split: prod.splits result.splits)
qed (simp_all split: prod.splits)

lemma run_seq:
  "run d (seq m f s) net =
     (case run d (m s) net of
        (Returned a, s', tr, net') \<Rightarrow>
          (case run d (f a s') net' of (r, s'', tr', net'') \<Rightarrow> (r, s'', tr @ tr', net''))
      | (Raised e, s', tr, net') \<Rightarrow> (Raised e, s', tr, net'))"
  by (simp add: seq_def run_bind)

lemma run_try_catch:
  "run d (try_catch m h s) net =
     (case run d (m s) net of
        (Returned a, s', tr, net') \<Rightarrow> (Returned a, s', tr, net')
      | (Raised e, s', tr, net') \<Rightarrow>
          (case run d (h e s') net' of (r, s'', tr', net'') \<Rightarrow> (r, s'', tr @ tr', net'')))"
  by (simp add: try_catch_def run_catch)

lemma run_try_finally:
  "run d (try_finally m fin s) net =
     (case run d (m s) net of (r, s', tr, net') \<Rightarrow> (r, fin s', tr, net'))"
  by (simp add: try_finally_def run_finally)

lemma run_ret [simp]: "run d (ret a s) net = (Returned a, s, [], net)"
  by (simp add: ret_def)

lemma run_throw [simp]: "run d (throw e s) net = (Raised e, s, [], net)"
  by (simp add: throw_def)

lemma run_upd [simp]: "run d (upd f s) net = (Returned (), f s, [], net)"
  by (simp add: upd_def)

section \<open>Invariants of a call\<close>

lemma keepsI:
  assumes "\<And>s net res s' trace net'. I s \<Longrightarrow> run d (m s) net = (res, s', trace, net') \<Longrightarrow>
     I s' \<and> (\<forall>(q, sq) \<in> set trace. R q sq)"
  shows "keeps I R d m"
  using assms unfolding keeps_def by blast

lemma keepsD:
  assumes "keeps I R d m" "I s" "run d (m s) net = (res, s', trace, net')"
  shows "I s'" "\<And>q sq. (q, sq) \<in> set trace \<Longrightarrow> R q sq"
  using assms unfolding keeps_def by blast+

lemma keeps_ret: "keeps I R d (ret a)"
  by (rule keepsI) simp

lemma keeps_throw: "keeps I R d (throw e)"
  by (rule keepsI) simp

lemma keeps_upd: "(\<And>s. I s \<Longrightarrow> I (f s)) \<Longrightarrow> keeps I R d (upd f)"
  by (rule keepsI) auto

lemma keeps_seq:
  assumes m: "keeps I R d m" and f: "\<And>a. keeps I R d (f a)"
  shows "keeps I R d (seq m f)"
proof (rule keepsI)
  fix s net res s' trace net'
  assume I: "I s" and r: "run d (seq m f s) net = (res, s', trace, net')"
  obtain r1 s1 t1 n1 where r1: "run d (m s) net = (r1, s1, t1, n1)"
    by (cases "run d (m s) net") auto
  note k1 = keepsD [OF m I r1]
  show "I s' \<and> (\<forall>(q, sq) \<in> set trace. R q sq)"
  proof (cases r1)
    case (Raised e)
    with r r1 k1 show ?thesis by (auto simp: run_seq)
  next
    case (Returned a)
    obtain r2 s2 t2 n2 where r2: "run d (f a s1) n1 = (r2, s2, t2, n2)"
      by (cases "run d (f a s1) n1") auto
    note k2 = keepsD [OF f k1(1) r2]
    from r r1 r2 Returned have "s' = s2" "trace = t1 @ t2" by (auto simp: run_seq)
    with k1 k2 show ?thesis by auto
  qed
qed

lemma keeps_try_catch:
  assumes m: "keeps I R d m" and h: "\<And>e. keeps I R d (h e)"
  shows "keeps I R d (try_catch m h)"
proof (rule keepsI)
  fix s net res s' trace net'
  assume I: "I s" and r: "run d (try_catch m h s) net = (res, s', trace, net')"
  obtain r1 s1 t1 n1 where r1: "run d (m s) net = (r1, s1, t1, n1)"
    by (cases "run d (m s) net") auto
  note k1 = keepsD [OF m I r1]
  show "I s' \<and> (\<forall>(q, sq) \<in> set trace. R q sq)"
  proof (cases r1)
    case (Returned a)
    with r r1 k1 show ?thesis by (auto simp: run_try_catch)
  next
    case (Raised e)
    obtain r2 s2 t2 n2 where r2: "run d (h e s1) n1 = (r2, s2, t2, n2)"
      by (cases "run d (h e s1) n1") auto
    note k2 = keepsD [OF h k1(1) r2]
    from r r1 r2 Raised have "s' = s2" "trace = t1 @ t2" by (auto simp: run_try_catch)
    with k1 k2 show ?thesis by auto
  qed
qed

lemma keeps_for_each:
  assumes "\<And>x. x \<in> set xs \<Longrightarrow> keeps I R d (body x)"
  shows "keeps I R d (for_each xs body)"
  using assms
proof (induction xs)
  case Nil
  show ?case by (simp add: keeps_ret)
next
  case (Cons x xs)
  show ?case
    by (simp, rule keeps_seq) (simp_all add: Cons)
qed

lemma keeps_if:
  "keeps I R d m \<Longrightarrow> keeps I R d m' \<Longrightarrow> keeps I R d (if b then m else m')"
  by simp

section \<open>Requests and reads\<close>

lemma run_modbusRequest:
  assumes "map_of (BOARDS cfg) boardKey = Some c" "boardState s boardKey = Some st"
  shows "run [] (modbusRequest cfg boardKey fc data s) net =
     (case (if useRTU st then (Inr (buildRTUFrame (unitId c) fc data), s)
            else buildTCPFrame boardKey (unitId c) fc data s) of
        (Inl err, s1) \<Rightarrow> (Raised err, s1, [], net)
      | (Inr frame, s1) \<Rightarrow>
          (case on_data (useRTU st) [] (next_response [] net) of
             Inl err \<Rightarrow> (Raised err, s1,
               [(\<lparr>rq_board = boardKey, rq_fc = fc, rq_data = data, rq_frame = frame\<rparr>, s1)], tl net)
           | Inr pdu \<Rightarrow> (Returned pdu, s1,
               [(\<lparr>rq_board = boardKey, rq_fc = fc, rq_data = data, rq_frame = frame\<rparr>, s1)], tl net)))"
proof (cases "useRTU st")
  case True
  then show ?thesis
    using assms by (simp add: modbusRequest_def split: sum.splits)
next
  case False
  then show ?thesis
    using assms
    by (auto simp: modbusRequest_def buildTCPFrame_def Let_def split: sum.splits)
qed

lemma run_modbusRequest_undefined:
  assumes "map_of (BOARDS cfg) boardKey = None \<or> boardState s boardKey = None"
  shows "run [] (modbusRequest cfg boardKey fc data s) net = (Raised TypeError, s, [], net)"
  using assms by (auto simp: modbusRequest_def split: option.splits)

text \<open>A request that returns has returned the PDU that the \<^verbatim>\<open>data\<close> handler made of the
  events of its socket, in the mode of the board.\<close>

lemma run_modbusRequest_Returned:
  assumes "run [] (modbusRequest cfg boardKey fc data s) net = (Returned pdu, s', trace, net')"
  shows "\<exists>st. boardState s boardKey = Some st \<and>
           on_data (useRTU st) [] (next_response [] net) = Inr pdu"
proof (cases "map_of (BOARDS cfg) boardKey = None \<or> boardState s boardKey = None")
  case True
  from run_modbusRequest_undefined [OF this] assms show ?thesis by simp
next
  case False
  then obtain c st where "map_of (BOARDS cfg) boardKey = Some c" "boardState s boardKey = Some st"
    by auto
  from run_modbusRequest [OF this] assms this(2) show ?thesis
    by (auto split: prod.splits sum.splits if_splits)
qed

text \<open>
  C10. For every start address and quantity, a \<^verbatim>\<open>readCoils\<close> that returns has returned
  exactly \<open>qty\<close> booleans, whatever the length of the response PDU: coil \<open>i\<close> is bit
  \<open>i mod 8\<close> of PDU byte \<open>2 + i div 8\<close> where the PDU has that byte, and false where it has
  not.
\<close>

theorem readCoils_quantity:
  assumes "run [] (readCoils cfg boardKey startAddr qty s) net = (Returned cs, s', trace, net')"
  shows "length cs = qty \<and>
         (\<exists>st pdu. boardState s boardKey = Some st \<and>
            on_data (useRTU st) [] (next_response [] net) = Inr pdu \<and>
            (\<forall>i<qty. (cs ! i \<longleftrightarrow>
                        2 + i div 8 < length pdu \<and> pdu ! (2 + i div 8) AND push_bit (i mod 8) 1 \<noteq> 0) \<and>
                     (length pdu \<le> 2 + i div 8 \<longrightarrow> \<not> cs ! i)))"
proof -
  obtain data where data: "and_then (uint16BE startAddr) (\<lambda>a. and_then (uint16BE qty) (\<lambda>q. Inr (a @ q))) = Inr data"
    using assms by (cases "and_then (uint16BE startAddr) (\<lambda>a. and_then (uint16BE qty) (\<lambda>q. Inr (a @ q)))")
      (simp_all add: readCoils_def)
  obtain pdu s1 tr1 net1 where
    rq: "run [] (modbusRequest cfg boardKey 0x01 data s) net = (Returned pdu, s1, tr1, net1)"
    and cs: "cs = map (coil_at pdu) [0..<qty]"
    using assms
    by (auto simp: readCoils_def data run_seq split: prod.splits result.splits)
  from run_modbusRequest_Returned [OF rq] obtain st where
    "boardState s boardKey = Some st" "on_data (useRTU st) [] (next_response [] net) = Inr pdu"
    by blast
  then show ?thesis
    by (auto simp: cs coil_at_def)
qed

lemma coils_of_short_pdu:
  "map (coil_at [1, 1, 5]) [0..<12]
     = [True, False, True, False, False, False, False, False, False, False, False, False]"
  by code_simp

lemmas task_eval = seq_def ret_def throw_def upd_def try_catch_def try_finally_def
  next_response_def

lemmas codec_eval = uint16BE_def uint8_def tcpFrame_def buildRTUFrame_def parseTCPResponse_def
  Let_def

lemmas config_eval = default_config_def initial_state_def initial_board_def

text \<open>Twelve coils are asked of the first board; the response carries one data byte.
  The last four coils read false.\<close>

theorem readCoils_quantity_witness:
  "fst (run [] (readCoils default_config ''board1'' 0 12 (initial_state default_config))
          [[Data [0, 1, 0, 0, 0, 4, 1, 1, 1, 5]]])
     = Returned [True, False, True, False, False, False, False, False, False, False, False, False] \<and>
   length [True, False, True, False, False, False, False, False, False, False, False, False] = 12"
proof -
  let ?cs = "[True, False, True, False, False, False, False, False, False, False, False, False]"
  let ?r = "run [] (readCoils default_config ''board1'' 0 12 (initial_state default_config))
          [[Data [0, 1, 0, 0, 0, 4, 1, 1, 1, 5]]]"
  have r: "fst ?r = Returned ?cs"
    by (simp add: readCoils_def modbusRequest_def buildTCPFrame_def task_eval codec_eval
        config_eval coils_of_short_pdu)
  then obtain s' trace net' where "?r = (Returned ?cs, s', trace, net')"
    by (cases ?r) auto
  from readCoils_quantity [OF this] r show ?thesis by simp
qed

section \<open>Mode detection\<close>

lemma run_modify_board:
  "boardState s boardKey = Some st \<Longrightarrow>
   run d (modify_board boardKey f s) net = (Returned (), set_board boardKey (f st) s, [], net)"
  by (simp add: modify_board_def set_board_def)

lemma boardState_set_board [simp]:
  "boardState (set_board boardKey st s) = (boardState s)(boardKey \<mapsto> st)"
  by (simp add: set_board_def)

lemma set_board_twice [simp]:
  "set_board boardKey st' (set_board boardKey st s) = set_board boardKey st' s"
  by (simp add: set_board_def)

lemma buildTCPFrame_eq:
  "boardState s boardKey = Some st \<Longrightarrow>
   buildTCPFrame boardKey u fc data s =
     (tcpFrame ((transactionId st + 1) mod 65536) u fc data,
      set_board boardKey (st\<lparr>transactionId := transactionId st + 1\<rparr>) s)"
  by (simp add: buildTCPFrame_def set_board_def Let_def)

lemma uint16BE_ok: "v \<le> 65535 \<Longrightarrow> uint16BE v = Inr [of_nat (v div 256), of_nat (v mod 256)]"
  by (simp add: uint16BE_def)

text \<open>The probe of \<^verbatim>\<open>autoDetectBoard\<close>: what it sends, and what it makes of the two
  responses.\<close>

lemma run_autoDetectBoard:
  assumes c: "map_of (BOARDS cfg) boardKey = Some c" and st: "boardState s boardKey = Some st"
    and ch: "channels c \<le> 65535" and u: "unitId c \<le> 255"
  shows "run [] (autoDetectBoard cfg boardKey s) net =
     (let data = readCoilsRequest 0 (channels c);
          rq1 = tcp_request boardKey (transactionId st + 1) (unitId c) 0x01 data;
          rq2 = rtu_request boardKey (unitId c) 0x01 data;
          s1 = set_board boardKey (st\<lparr>useRTU := False, transactionId := transactionId st + 1\<rparr>) s;
          s2 = set_board boardKey (st\<lparr>useRTU := True, transactionId := transactionId st + 1\<rparr>) s
      in
      if resolved (on_data False [] (next_response [] net)) then
        (Returned True, s1, [(rq1, s1)], tl net)
      else if resolved (on_data True [] (next_response [] (tl net))) then
        (Returned True, s2, [(rq1, s1), (rq2, s2)], tl (tl net))
      else
        (Returned False, s2, [(rq1, s1), (rq2, s2)], tl (tl net)))"
proof -
  define data where "data = readCoilsRequest 0 (channels c)"
  define rq1 where "rq1 = tcp_request boardKey (transactionId st + 1) (unitId c) 0x01 data"
  define rq2 where "rq2 = rtu_request boardKey (unitId c) 0x01 data"
  define st1 where "st1 = st\<lparr>useRTU := False, transactionId := transactionId st + 1\<rparr>"
  define st2 where "st2 = st\<lparr>useRTU := True, transactionId := transactionId st + 1\<rparr>"
  let ?s0 = "set_board boardKey (st\<lparr>useRTU := False\<rparr>) s"
  let ?s1 = "set_board boardKey st1 s"
  let ?s2 = "set_board boardKey st2 s"
  have td: "and_then (uint16BE 0) (\<lambda>a. and_then (uint16BE (channels c)) (\<lambda>q. Inr (a @ q))) = Inr data"
    using ch by (simp add: uint16BE_def data_def readCoilsRequest_def)
  have frame: "tcpFrame ((transactionId st + 1) mod 65536) (unitId c) 0x01 data = Inr (rq_frame rq1)"
    using u by (simp add: tcpFrame_def uint16BE_def uint8_def rq1_def tcp_request_def data_def
        readCoilsRequest_def)
  have rq1: "\<lparr>rq_board = boardKey, rq_fc = 0x01, rq_data = data, rq_frame = rq_frame rq1\<rparr> = rq1"
    by (simp add: rq1_def tcp_request_def)
  have p1: "run [] (modbusRequest cfg boardKey 0x01 data ?s0) net =
      (case on_data False [] (next_response [] net) of
         Inl err \<Rightarrow> (Raised err, ?s1, [(rq1, ?s1)], tl net)
       | Inr pdu \<Rightarrow> (Returned pdu, ?s1, [(rq1, ?s1)], tl net))"
    using run_modbusRequest [OF c, where s = ?s0 and st = "st\<lparr>useRTU := False\<rparr>" and fc = "0x01"
        and data = data and net = net] frame rq1
    by (simp add: buildTCPFrame_eq st1_def split: sum.splits)
  have p2: "run [] (modbusRequest cfg boardKey 0x01 data ?s2) net' =
      (case on_data True [] (next_response [] net') of
         Inl err \<Rightarrow> (Raised err, ?s2, [(rq2, ?s2)], tl net')
       | Inr pdu \<Rightarrow> (Returned pdu, ?s2, [(rq2, ?s2)], tl net'))" for net'
    using run_modbusRequest [OF c, where s = ?s2 and st = st2 and fc = "0x01"
        and data = data and net = net']
    by (simp add: rq2_def rtu_request_def st2_def split: sum.splits)
  have m1: "run [] (modify_board boardKey (\<lambda>st. st\<lparr>useRTU := False\<rparr>) s) net
      = (Returned (), ?s0, [], net)"
    by (rule run_modify_board [OF st])
  have m2: "run [] (modify_board boardKey (\<lambda>st. st\<lparr>useRTU := True\<rparr>) ?s1) net'
      = (Returned (), ?s2, [], net')" for net'
    using run_modify_board [where s = ?s1 and boardKey = boardKey and st = st1 and d = "[]"
        and f = "\<lambda>st. st\<lparr>useRTU := True\<rparr>" and net = net'] by (cases st) (simp add: st1_def st2_def)
  have "run [] (autoDetectBoard cfg boardKey s) net =
     (if resolved (on_data False [] (next_response [] net)) then
        (Returned True, ?s1, [(rq1, ?s1)], tl net)
      else if resolved (on_data True [] (next_response [] (tl net))) then
        (Returned True, ?s2, [(rq1, ?s1), (rq2, ?s2)], tl (tl net))
      else
        (Returned False, ?s2, [(rq1, ?s1), (rq2, ?s2)], tl (tl net)))"
    unfolding autoDetectBoard_def
    by (simp add: c td run_seq run_try_catch m1 p1 m2 p2 resolved_def split: sum.splits)
  then show ?thesis
    by (simp add: Let_def data_def rq1_def rq2_def st1_def st2_def)
qed


lemma update_noop:
  "\<not> modeDetected st \<Longrightarrow> st\<lparr>modeDetected := False\<rparr> = st"
  by (cases st) simp

lemma run_heartbeat_undetected:
  assumes c: "map_of (BOARDS cfg) boardKey = Some c" and st: "boardState s boardKey = Some st"
    and ch: "channels c \<le> 65535" and u: "unitId c \<le> 255"
    and idle: "\<not> commandLock st" "\<not> modeDetected st"
    and fail: "\<not> resolved (on_data False [] (next_response [] net))"
              "\<not> resolved (on_data True [] (next_response [] (tl net)))"
  shows "run [] (heartbeatBoard cfg boardKey s) net =
     (let data = readCoilsRequest 0 (channels c);
          rq1 = tcp_request boardKey (transactionId st + 1) (unitId c) 0x01 data;
          rq2 = rtu_request boardKey (unitId c) 0x01 data;
          s1 = set_board boardKey (st\<lparr>useRTU := False, transactionId := transactionId st + 1\<rparr>) s;
          s2 = set_board boardKey (st\<lparr>useRTU := True, transactionId := transactionId st + 1\<rparr>) s
      in (Returned (), s2, [(rq1, s1), (rq2, s2)], tl (tl net)))"
proof -
  let ?st2 = "st\<lparr>useRTU := True, transactionId := transactionId st + 1\<rparr>"
  have "\<not> modeDetected ?st2" using idle by simp
  then have "?st2\<lparr>modeDetected := False\<rparr> = ?st2" by (rule update_noop)
  then have m: "run [] (modify_board boardKey (\<lambda>st. st\<lparr>modeDetected := False\<rparr>)
        (set_board boardKey ?st2 s)) net' = (Returned (), set_board boardKey ?st2 s, [], net')" for net'
    using run_modify_board [where s = "set_board boardKey ?st2 s" and boardKey = boardKey
        and st = ?st2 and d = "[]" and f = "\<lambda>st. st\<lparr>modeDetected := False\<rparr>" and net = net']
    by simp
  show ?thesis
    unfolding heartbeatBoard_def
    using idle fail m
    by (simp add: st run_seq run_autoDetectBoard [OF c st ch u] Let_def)
qed

lemma heartbeat_first_probe:
  assumes c: "map_of (BOARDS cfg) boardKey = Some c" and st: "boardState s boardKey = Some st"
    and ch: "channels c \<le> 65535" and u: "unitId c \<le> 255"
    and idle: "\<not> commandLock st" "\<not> modeDetected st"
  shows "\<exists>k. heartbeatBoard cfg boardKey s =
           Await (tcp_request boardKey (transactionId st + 1) (unitId c) 0x01
                    (readCoilsRequest 0 (channels c)))
                 (set_board boardKey
                    (st\<lparr>useRTU := False, transactionId := transactionId st + 1\<rparr>) s) k"
proof -
  have t: "(transactionId st + 1) mod 65536 \<le> 65535" by simp
  have l: "length (readCoilsRequest 0 (channels c)) \<le> 256" by (simp add: readCoilsRequest_def)
  have d: "and_then (uint16BE 0) (\<lambda>a. and_then (uint16BE (channels c)) (\<lambda>q. Inr (a @ q)))
      = Inr (readCoilsRequest 0 (channels c))"
    using ch by (simp add: uint16BE_def readCoilsRequest_def)
  have f: "tcpFrame (Suc (transactionId st) mod 65536) (unitId c) 0x01
             (readCoilsRequest 0 (channels c))
           = Inr (rq_frame (tcp_request boardKey (transactionId st + 1) (unitId c) 0x01
                    (readCoilsRequest 0 (channels c))))"
    using tcpFrame_ok [OF u t l, of "0x01"] by (simp add: tcp_request_def readCoilsRequest_def)
  show ?thesis
    using idle
    by (simp add: heartbeatBoard_def autoDetectBoard_def st c d seq_def try_catch_def
        modify_board_def modbusRequest_def buildTCPFrame_def f Let_def set_board_def)
      (simp add: tcp_request_def)
qed

text \<open>
  C8. \<^verbatim>\<open>autoDetectBoard\<close> first sends a Read Coils request for start 0 and the board's
  channel count framed as Modbus/TCP, and returns true with the board in TCP mode if it
  is answered; only if that probe fails does it send the same read framed as
  RTU-over-TCP, returning true with the board in RTU mode if that is answered; if both
  fail it returns false. A heartbeat of an idle, undetected board whose two probes fail
  ends there, with the board still undetected, and the heartbeat after it starts over
  with the Modbus/TCP probe. Channel count and unit id are taken to fit their fields.
\<close>

theorem detect_dialect:
  assumes c: "map_of (BOARDS cfg) boardKey = Some c" and st: "boardState s boardKey = Some st"
    and ch: "channels c \<le> 65535" and u: "unitId c \<le> 255"
  shows
    "let data = readCoilsRequest 0 (channels c);
         rq1 = tcp_request boardKey (transactionId st + 1) (unitId c) 0x01 data;
         rq2 = rtu_request boardKey (unitId c) 0x01 data;
         s1 = set_board boardKey (st\<lparr>useRTU := False, transactionId := transactionId st + 1\<rparr>) s;
         s2 = set_board boardKey (st\<lparr>useRTU := True, transactionId := transactionId st + 1\<rparr>) s;
         tcp = resolved (on_data False [] (next_response [] net));
         rtu = resolved (on_data True [] (next_response [] (tl net)))
     in run [] (autoDetectBoard cfg boardKey s) net =
          (if tcp then (Returned True, s1, [(rq1, s1)], tl net)
           else if rtu then (Returned True, s2, [(rq1, s1), (rq2, s2)], tl (tl net))
           else (Returned False, s2, [(rq1, s1), (rq2, s2)], tl (tl net))) \<and>
        (\<not> commandLock st \<and> \<not> modeDetected st \<and> \<not> tcp \<and> \<not> rtu \<longrightarrow>
           run [] (heartbeatBoard cfg boardKey s) net
             = (Returned (), s2, [(rq1, s1), (rq2, s2)], tl (tl net)) \<and>
           (\<exists>k. heartbeatBoard cfg boardKey s2 =
              Await (tcp_request boardKey (transactionId st + 2) (unitId c) 0x01 data)
                (set_board boardKey
                   (st\<lparr>useRTU := False, transactionId := transactionId st + 2\<rparr>) s) k))"
proof -
  let ?st2 = "st\<lparr>useRTU := True, transactionId := transactionId st + 1\<rparr>"
  let ?s2 = "set_board boardKey ?st2 s"
  have again: "\<exists>k. heartbeatBoard cfg boardKey ?s2 =
      Await (tcp_request boardKey (transactionId st + 2) (unitId c) 0x01
               (readCoilsRequest 0 (channels c)))
        (set_board boardKey (st\<lparr>useRTU := False, transactionId := transactionId st + 2\<rparr>) s) k"
    if "\<not> commandLock st" "\<not> modeDetected st"
  proof -
    have "boardState ?s2 boardKey = Some ?st2" by simp
    from heartbeat_first_probe [OF c this ch u] that show ?thesis
      by (cases st) (simp add: numeral_2_eq_2)
  qed
  show ?thesis
    unfolding Let_def
    using run_autoDetectBoard [OF c st ch u, of net]
      run_heartbeat_undetected [OF c st ch u, of net] again
    by (simp add: Let_def)
qed

lemma rtu_read_response: "parseRTUResponse [1, 1, 1, 5, 145, 139] = Inr (Some [1, 1, 5])"
  by code_simp

text \<open>The first board of the registry at start-up: the Modbus/TCP probe gets no answer,
  the RTU probe does.\<close>

theorem detect_dialect_witness:
  "map_of (BOARDS default_config) ''board1''
     = Some \<lparr>host = ''10.10.10.64'', port = 4196, unitId = 1, channels = 6,
              board_name = ''Board 1 (Main)''\<rparr> \<and>
   boardState (initial_state default_config) ''board1''
     = Some \<lparr>reachable = False, modeDetected = False, useRTU = False, commandLock = False,
              coils = replicate 6 False, transactionId = 0\<rparr> \<and>
   (6 :: nat) \<le> 65535 \<and> (1 :: nat) \<le> 255 \<and>
   (case run [] (autoDetectBoard default_config ''board1'' (initial_state default_config))
           [[], [Data [1, 1, 1, 5, 145, 139]]] of
      (res, s', trace, net') \<Rightarrow>
        res = Returned True \<and>
        map_option useRTU (boardState s' ''board1'') = Some True \<and>
        map (rq_frame \<circ> fst) trace
          = [[0, 1, 0, 0, 0, 6, 1, 1, 0, 0, 0, 6], [1, 1, 0, 0, 0, 6, 188, 8]])"
proof -
  let ?c = "\<lparr>host = ''10.10.10.64'', port = 4196, unitId = 1, channels = 6,
              board_name = ''Board 1 (Main)''\<rparr>"
  let ?st = "\<lparr>reachable = False, modeDetected = False, useRTU = False, commandLock = False,
              coils = replicate 6 False, transactionId = 0\<rparr>"
  have c: "map_of (BOARDS default_config) ''board1'' = Some ?c"
    by (simp add: default_config_def)
  have st: "boardState (initial_state default_config) ''board1'' = Some ?st"
    by (simp add: config_eval)
  have ch: "channels ?c \<le> 65535" and u: "unitId ?c \<le> 255" by simp_all
  have tcp: "\<not> resolved (on_data False [] (next_response [] [[], [Data [1, 1, 1, 5, 145, 139]]]))"
    by (simp add: resolved_def next_response_def)
  have rtu: "resolved (on_data True []
      (next_response [] (tl [[], [Data [1, 1, 1, 5, 145, 139]]])))"
    by (simp add: resolved_def next_response_def rtu_read_response)
  have f: "buildRTUFrame (Suc 0) 0x01 [0, 0, 0, 6] = [1, 1, 0, 0, 0, 6, 188, 8]"
    by code_simp
  from detect_dialect [OF c st ch u, of "[[], [Data [1, 1, 1, 5, 145, 139]]]"] tcp rtu c st
  show ?thesis
    by (simp add: Let_def tcp_request_def rtu_request_def readCoilsRequest_def f)
qed


section \<open>Failed exchanges\<close>

text \<open>A request changes nothing of the program state but the transaction counter of its
  board.\<close>

lemma run_modbusRequest_state:
  assumes "run [] (modbusRequest cfg boardKey fc data s) net = (res, s', trace, net')"
  shows "s' = s \<or>
         (\<exists>st. boardState s boardKey = Some st \<and>
               s' = set_board boardKey (st\<lparr>transactionId := transactionId st + 1\<rparr>) s)"
proof (cases "map_of (BOARDS cfg) boardKey = None \<or> boardState s boardKey = None")
  case True
  from run_modbusRequest_undefined [OF this] assms show ?thesis by simp
next
  case False
  then obtain c st where c: "map_of (BOARDS cfg) boardKey = Some c"
    and st: "boardState s boardKey = Some st" by auto
  from run_modbusRequest [OF c st, of fc data net] assms show ?thesis
    by (auto simp: st buildTCPFrame_eq [OF st] split: sum.splits if_splits)
qed

lemma run_modbusRequest_modeDetected:
  assumes "run [] (modbusRequest cfg boardKey fc data s) net = (res, s', trace, net')"
  shows "map_option modeDetected (boardState s' b) = map_option modeDetected (boardState s b)"
    and "map_option useRTU (boardState s' b) = map_option useRTU (boardState s b)"
    and "map_option reachable (boardState s' b) = map_option reachable (boardState s b)"
    and "map_option commandLock (boardState s' b) = map_option commandLock (boardState s b)"
  using run_modbusRequest_state [OF assms] by auto

lemma run_readCoils_state:
  assumes "run [] (readCoils cfg boardKey start qty s) net = (res, s', trace, net')"
  shows "s' = s \<or>
         (\<exists>st. boardState s boardKey = Some st \<and>
               s' = set_board boardKey (st\<lparr>transactionId := transactionId st + 1\<rparr>) s)"
proof (cases "and_then (uint16BE start) (\<lambda>a. and_then (uint16BE qty) (\<lambda>q. Inr (a @ q)))")
  case (Inl e)
  with assms show ?thesis by (simp add: readCoils_def)
next
  case (Inr data)
  obtain r1 s1 t1 n1 where r: "run [] (modbusRequest cfg boardKey 0x01 data s) net = (r1, s1, t1, n1)"
    by (cases "run [] (modbusRequest cfg boardKey 0x01 data s) net") auto
  with assms Inr have "s' = s1"
    by (auto simp: readCoils_def run_seq split: result.splits)
  with run_modbusRequest_state [OF r] show ?thesis by simp
qed

lemma run_writeCoil_state:
  assumes "run [] (writeCoil cfg boardKey addr v s) net = (res, s', trace, net')"
  shows "s' = s \<or>
         (\<exists>st. boardState s boardKey = Some st \<and>
               s' = set_board boardKey (st\<lparr>transactionId := transactionId st + 1\<rparr>) s)"
proof (cases "and_then (uint16BE addr) (\<lambda>a.
           and_then (uint16BE (if v then 0xFF00 else 0x0000)) (\<lambda>w. Inr (a @ w)))")
  case (Inl e)
  with assms show ?thesis by (simp add: writeCoil_def)
next
  case (Inr data)
  obtain r1 s1 t1 n1 where r: "run [] (modbusRequest cfg boardKey 0x05 data s) net = (r1, s1, t1, n1)"
    by (cases "run [] (modbusRequest cfg boardKey 0x05 data s) net") auto
  with assms Inr have "s' = s1"
    by (auto simp: writeCoil_def run_seq split: result.splits)
  with run_modbusRequest_state [OF r] show ?thesis by simp
qed

text \<open>A heartbeat on a detected board whose read fails marks the board unreachable and
  undetected.\<close>

lemma run_heartbeat_read_fails:
  assumes c: "map_of (BOARDS cfg) boardKey = Some c" and st: "boardState s boardKey = Some st"
    and idle: "\<not> commandLock st" "modeDetected st"
    and rd: "run [] (readCoils cfg boardKey 0 (channels c) s) net = (Raised err, s1, trace, net1)"
  shows "\<exists>st1. boardState s1 boardKey = Some st1 \<and>
           run [] (heartbeatBoard cfg boardKey s) net
             = (Returned (), set_board boardKey (st1\<lparr>reachable := False, modeDetected := False\<rparr>) s1,
                trace, net1)"
proof -
  from run_readCoils_state [OF rd] st obtain st1 where st1: "boardState s1 boardKey = Some st1"
    by auto
  have "run [] (heartbeatBoard cfg boardKey s) net
      = (Returned (), set_board boardKey (st1\<lparr>reachable := False, modeDetected := False\<rparr>) s1,
         trace, net1)"
    unfolding heartbeatBoard_def
    using idle
    by (simp add: st c run_seq run_try_catch rd run_modify_board [OF st1])
  with st1 show ?thesis by blast
qed

lemma boardState_after_request:
  "boardState (after_request b s) b' =
     (if b' = b then
        map_option (\<lambda>st. if useRTU st then st else st\<lparr>transactionId := transactionId st + 1\<rparr>)
          (boardState s b)
      else boardState s b')"
  by (auto simp: after_request_def split: option.splits)

lemma after_request_fields [simp]:
  "closeTimers (after_request b s) = closeTimers s"
  "auditEntries (after_request b s) = auditEntries s"
  "timers (after_request b s) = timers s"
  "nextTimer (after_request b s) = nextTimer s"
  by (simp_all add: after_request_def set_board_def split: option.splits)

lemma logical_framed [simp]: "logical (framed b c st fc data) = (b, fc, data)"
  by (simp add: logical_def framed_def tcp_request_def rtu_request_def)

lemma run_modbusRequest_framed:
  assumes c: "map_of (BOARDS cfg) b = Some c" and st: "boardState s b = Some st"
    and u: "unitId c \<le> 255" and l: "length data \<le> 256"
  shows "run [] (modbusRequest cfg b fc data s) net =
     (case on_data (useRTU st) [] (next_response [] net) of
        Inl err \<Rightarrow> (Raised err, after_request b s, [(framed b c st fc data, after_request b s)], tl net)
      | Inr pdu \<Rightarrow> (Returned pdu, after_request b s, [(framed b c st fc data, after_request b s)], tl net))"
proof (cases "useRTU st")
  case True
  then show ?thesis
    using run_modbusRequest [OF c st, of fc data net]
    by (simp add: after_request_def st framed_def rtu_request_def split: sum.splits)
next
  case False
  have t: "(transactionId st + 1) mod 65536 \<le> 65535" by simp
  from False show ?thesis
    using run_modbusRequest [OF c st, of fc data net] tcpFrame_ok [OF u t l, of fc]
    by (simp add: after_request_def st framed_def tcp_request_def buildTCPFrame_eq [OF st]
        split: sum.splits)
qed

lemma run_writeCoil:
  assumes c: "map_of (BOARDS cfg) b = Some c" and st: "boardState s b = Some st"
    and u: "unitId c \<le> 255" and a: "addr \<le> 65535"
  shows "run [] (writeCoil cfg b addr v s) net =
     (case on_data (useRTU st) [] (next_response [] net) of
        Inl err \<Rightarrow> (Raised err, after_request b s,
                     [(framed b c st 0x05 (writeCoilRequest addr v), after_request b s)], tl net)
      | Inr pdu \<Rightarrow> (Returned (), after_request b s,
                     [(framed b c st 0x05 (writeCoilRequest addr v), after_request b s)], tl net))"
proof -
  have d: "and_then (uint16BE addr) (\<lambda>a.
           and_then (uint16BE (if v then 0xFF00 else 0x0000)) (\<lambda>w. Inr (a @ w)))
      = Inr (writeCoilRequest addr v)"
    using a by (simp add: uint16BE_def writeCoilRequest_def)
  have l: "length (writeCoilRequest addr v) \<le> 256" by (simp add: writeCoilRequest_def)
  show ?thesis
    by (simp add: writeCoil_def d run_seq run_modbusRequest_framed [OF c st u l] split: sum.splits)
qed

section \<open>The command lock\<close>

lemma run_modbusRequest_trace:
  assumes "run [] (modbusRequest cfg b fc data s) net = (res, s', trace, net')"
  shows "tid_only b s s'" and "\<And>q sq. (q, sq) \<in> set trace \<Longrightarrow> sq = s' \<and> rq_board q = b"
proof -
  show "tid_only b s s'"
    using run_modbusRequest_state [OF assms]
    by (auto simp: tid_only_def split: option.splits)
  fix q sq assume m: "(q, sq) \<in> set trace"
  show "sq = s' \<and> rq_board q = b"
  proof (cases "map_of (BOARDS cfg) b = None \<or> boardState s b = None")
    case True
    from run_modbusRequest_undefined [OF this] assms m show ?thesis by simp
  next
    case False
    then obtain c st where c: "map_of (BOARDS cfg) b = Some c"
      and st: "boardState s b = Some st" by auto
    from run_modbusRequest [OF c st, of fc data net] assms m show ?thesis
      by (auto split: sum.splits prod.splits)
  qed
qed

lemma run_writeCoil_trace:
  assumes "run [] (writeCoil cfg b addr v s) net = (res, s', trace, net')"
  shows "tid_only b s s'" and "\<And>q sq. (q, sq) \<in> set trace \<Longrightarrow> sq = s' \<and> rq_board q = b"
proof -
  have "tid_only b s s' \<and> (\<forall>q sq. (q, sq) \<in> set trace \<longrightarrow> sq = s' \<and> rq_board q = b)"
  proof (cases "and_then (uint16BE addr) (\<lambda>a.
           and_then (uint16BE (if v then 0xFF00 else 0x0000)) (\<lambda>w. Inr (a @ w)))")
    case (Inl e)
    with assms show ?thesis by (auto simp: writeCoil_def tid_only_def split: option.splits)
  next
    case (Inr data)
    obtain r1 s1 t1 n1 where r: "run [] (modbusRequest cfg b 0x05 data s) net = (r1, s1, t1, n1)"
      by (cases "run [] (modbusRequest cfg b 0x05 data s) net") auto
    with assms Inr have "s' = s1" "trace = t1"
      by (auto simp: writeCoil_def run_seq split: result.splits)
    with run_modbusRequest_trace [OF r] show ?thesis by simp
  qed
  then show "tid_only b s s'" and "\<And>q sq. (q, sq) \<in> set trace \<Longrightarrow> sq = s' \<and> rq_board q = b"
    by simp_all
qed

lemma keeps_writeCoil:
  assumes inv: "\<And>s s'. I s \<Longrightarrow> tid_only b s s' \<Longrightarrow> I s'"
    and req: "\<And>q s. I s \<Longrightarrow> rq_board q = b \<Longrightarrow> R q s"
  shows "keeps I R [] (writeCoil cfg b addr v)"
proof (rule keepsI)
  fix s net res s' trace net'
  assume I: "I s" and r: "run [] (writeCoil cfg b addr v s) net = (res, s', trace, net')"
  note t = run_writeCoil_trace [OF r]
  have I': "I s'" by (rule inv [OF I t(1)])
  moreover have "R q sq" if "(q, sq) \<in> set trace" for q sq
    using t(2) [OF that] req [OF I'] by simp
  ultimately show "I s' \<and> (\<forall>(q, sq) \<in> set trace. R q sq)" by auto
qed

lemma tid_only_boardState:
  assumes "tid_only b s s'"
  shows "locked s' b' = locked s b'" and "b' \<noteq> b \<Longrightarrow> boardState s' b' = boardState s b'"
    and "rtu_mode s' b' = rtu_mode s b'"
  using assms
  by (cases "b' = b"; auto simp: tid_only_def locked_def rtu_mode_def set_board_def
      split: option.splits)+

lemma boardState_cancelCloseTimer [simp]:
  "boardState (cancelCloseTimer i s) = boardState s"
  by (simp add: cancelCloseTimer_def clearTimeout_def set_closeTimer_def split: option.splits)

lemma boardState_setCloseTimeout [simp]:
  "boardState (setCloseTimeout cb s) = boardState s"
  by (simp add: setCloseTimeout_def set_closeTimer_def Let_def)

lemma boardState_audit [simp]:
  "boardState (audit a dt src s) = boardState s"
  by (simp add: audit_def Let_def)

lemma locked_timers [simp]:
  "locked (cancelCloseTimer i s) b = locked s b"
  "locked (setCloseTimeout cb s) b = locked s b"
  "locked (audit a dt src s) b = locked s b"
  by (simp_all add: locked_def)

lemma release_lock_boardState:
  "\<not> locked (release_lock b s) b"
  "b' \<noteq> b \<Longrightarrow> boardState (release_lock b s) b' = boardState s b'"
  by (auto simp: release_lock_def locked_def split: option.splits)

text \<open>The writes of an action, between taking the lock and releasing it, go to the
  barrier's board, are issued under the lock, and leave the other boards alone.\<close>

lemma latchWrites_keeps:
  fixes s0 :: state and b :: string
  defines "I \<equiv> \<lambda>s. locked s b \<and> (\<forall>b'. b' \<noteq> b \<longrightarrow> boardState s b' = boardState s0 b')"
  defines "R \<equiv> \<lambda>q s. rq_board q = b \<and> locked s b"
  shows "keeps I R [] (latchWrites cfg b barrierId barrier act)"
proof -
  have w: "keeps I R [] (writeCoil cfg b addr v)" for addr v
    by (rule keeps_writeCoil) (auto simp: I_def R_def tid_only_boardState)
  have c: "keeps I R [] (upd (cancelCloseTimer barrierId))"
    and t: "keeps I R [] (upd (setCloseTimeout cb))" for cb
    by (rule keeps_upd, simp add: I_def)+
  show ?thesis
    unfolding latchWrites_def
    by (intro keeps_if keeps_seq w c t keeps_ret)
qed


lemma locked_set_board [simp]:
  "locked (set_board b st s) b' = (if b' = b then commandLock st else locked s b')"
  by (simp add: locked_def)

lemma run_latchBarrierAction:
  assumes barrier: "map_of (BARRIERS cfg) barrierId = Some barrier"
    and st: "boardState s (board barrier) = Some st" and up: "reachable st"
  shows "run [] (latchBarrierAction cfg barrierId act src s) net =
     (case run [] (latchWrites cfg (board barrier) barrierId barrier act
                    (set_board (board barrier) (st\<lparr>commandLock := True\<rparr>) s)) net of
        (Returned _, s1, trace, net') \<Rightarrow>
          (Returned (),
           audit (''barrier_'' @ act)
             (BarrierDetails (barrier_name barrier) barrierId (action_channel barrier act)) src
             (release_lock (board barrier) s1),
           trace, net')
      | (Raised err, s1, trace, net') \<Rightarrow> (Raised err, release_lock (board barrier) s1, trace, net'))"
  using up
  by (simp add: latchBarrierAction_def barrier st Let_def run_seq run_try_finally
      run_modify_board [OF st] split: prod.splits result.splits)

lemma latch_lock:
  assumes barrier: "map_of (BARRIERS cfg) barrierId = Some barrier"
    and st: "boardState s (board barrier) = Some st" and up: "reachable st"
    and r: "run [] (latchBarrierAction cfg barrierId act src s) net = (res, s', trace, net')"
  shows "(\<forall>(q, sq) \<in> set trace. rq_board q = board barrier \<and> locked sq (board barrier)) \<and>
         \<not> locked s' (board barrier) \<and>
         (\<forall>b. b \<noteq> board barrier \<longrightarrow> boardState s' b = boardState s b)"
proof -
  let ?b = "board barrier"
  let ?sL = "set_board ?b (st\<lparr>commandLock := True\<rparr>) s"
  define I where "I = (\<lambda>s'. locked s' ?b \<and> (\<forall>b'. b' \<noteq> ?b \<longrightarrow> boardState s' b' = boardState ?sL b'))"
  define R where "R = (\<lambda>(q :: request) s'. rq_board q = ?b \<and> locked s' ?b)"
  obtain r1 s1 t1 n1 where
    r1: "run [] (latchWrites cfg ?b barrierId barrier act ?sL) net = (r1, s1, t1, n1)"
    by (cases "run [] (latchWrites cfg ?b barrierId barrier act ?sL) net") auto
  have k: "keeps I R [] (latchWrites cfg ?b barrierId barrier act)"
    unfolding I_def R_def by (rule latchWrites_keeps)
  have "I ?sL" by (simp add: I_def)
  note inv = keepsD [OF k this r1]
  from r run_latchBarrierAction [OF barrier st up, of act src net] r1
  have tr: "trace = t1" and s': "s' = release_lock ?b s1 \<or>
      s' = audit (''barrier_'' @ act)
             (BarrierDetails (barrier_name barrier) barrierId (action_channel barrier act)) src
             (release_lock ?b s1)"
    by (auto split: result.splits)
  from inv(2) have "\<forall>(q, sq) \<in> set trace. rq_board q = ?b \<and> locked sq ?b"
    by (auto simp: tr R_def)
  moreover from s' have "\<not> locked s' ?b"
    by (auto simp: release_lock_boardState)
  moreover from s' inv(1) have "\<forall>b. b \<noteq> ?b \<longrightarrow> boardState s' b = boardState s b"
    by (auto simp: release_lock_boardState I_def)
  ultimately show ?thesis by blast
qed

lemma heartbeat_skips: "locked s b \<Longrightarrow> heartbeatBoard cfg b s = Done () s"
  by (auto simp: locked_def heartbeatBoard_def split: option.splits)

text \<open>An action does not look at the lock: on a reachable board it goes straight to its
  first write.\<close>

lemma latch_first_write:
  assumes barrier: "map_of (BARRIERS cfg) barrierId = Some barrier"
    and c: "map_of (BOARDS cfg) (board barrier) = Some c"
    and st: "boardState s (board barrier) = Some st" and up: "reachable st"
    and u: "unitId c \<le> 255" and a: "lift barrier \<le> 65535" "close barrier \<le> 65535"
    and act: "act \<in> {''lift'', ''close'', ''stop''}"
  shows "\<exists>q s1 k. latchBarrierAction cfg barrierId act src s = Await q s1 k \<and>
           logical q = (board barrier, 0x05,
             writeCoilRequest (if act = ''lift'' then close barrier else lift barrier) False) \<and>
           locked s1 (board barrier)"
proof -
  let ?b = "board barrier"
  let ?sL = "cancelCloseTimer barrierId (set_board ?b (st\<lparr>commandLock := True\<rparr>) s)"
  have stL: "boardState ?sL ?b = Some (st\<lparr>commandLock := True\<rparr>)" by simp
  have t: "(transactionId st + 1) mod 65536 \<le> 65535" by simp
  have w: "\<exists>k. writeCoil cfg ?b addr False ?sL =
      Await (framed ?b c (st\<lparr>commandLock := True\<rparr>) 0x05 (writeCoilRequest addr False))
        (after_request ?b ?sL) k" if "addr \<le> 65535" for addr
  proof -
    have l: "length (writeCoilRequest addr False) \<le> 256" by (simp add: writeCoilRequest_def)
    have d: "and_then (uint16BE addr) (\<lambda>a. and_then (uint16BE 0) (\<lambda>w. Inr (a @ w)))
      = Inr (writeCoilRequest addr False)"
      using that by (simp add: uint16BE_def writeCoilRequest_def)
    show ?thesis
      using tcpFrame_ok [OF u t l, of "0x05"]
      by (cases "useRTU st")
        (simp_all add: writeCoil_def d seq_def modbusRequest_def c stL buildTCPFrame_def
          after_request_def framed_def rtu_request_def tcp_request_def set_board_def Let_def)
  qed
  from act consider "act = ''lift''" | "act = ''close''" | "act = ''stop''" by auto
  then show ?thesis
  proof cases
    case 1
    from w [OF a(2)] obtain k where
      "writeCoil cfg ?b (close barrier) False ?sL =
        Await (framed ?b c (st\<lparr>commandLock := True\<rparr>) 0x05 (writeCoilRequest (close barrier) False))
          (after_request ?b ?sL) k" by blast
    with 1 up show ?thesis
      by (simp add: latchBarrierAction_def barrier st Let_def seq_def modify_board_def
          latchWrites_def upd_def try_finally_def set_board_def [symmetric]
          locked_def boardState_after_request)
  next
    case 2
    from w [OF a(1)] obtain k where
      "writeCoil cfg ?b (lift barrier) False ?sL =
        Await (framed ?b c (st\<lparr>commandLock := True\<rparr>) 0x05 (writeCoilRequest (lift barrier) False))
          (after_request ?b ?sL) k" by blast
    with 2 up show ?thesis
      by (simp add: latchBarrierAction_def barrier st Let_def seq_def modify_board_def
          latchWrites_def upd_def try_finally_def set_board_def [symmetric]
          locked_def boardState_after_request)
  next
    case 3
    from w [OF a(1)] obtain k where
      "writeCoil cfg ?b (lift barrier) False ?sL =
        Await (framed ?b c (st\<lparr>commandLock := True\<rparr>) 0x05 (writeCoilRequest (lift barrier) False))
          (after_request ?b ?sL) k" by blast
    with 3 up show ?thesis
      by (simp add: latchBarrierAction_def barrier st Let_def seq_def modify_board_def
          latchWrites_def upd_def try_finally_def set_board_def [symmetric]
          locked_def boardState_after_request)
  qed
qed

lemmas loop_eval = settle_def forget_def boot_def post_barrier_def post_emergency_off_def

lemmas server_eval = modbusRequest_def buildTCPFrame_def writeCoil_def readCoils_def
  modify_board_def heartbeatBoard_def autoDetectBoard_def latchBarrierAction_def latchWrites_def
  cancelCloseTimer_def closeTimer_def setCloseTimeout_def set_closeTimer_def clearTimeout_def
  release_lock_def audit_def action_channel_def MAX_AUDIT_ENTRIES_def closeRelease_def

lemmas state_eval = online_state_def online_board_def locked_def logical_def

lemma coils_all_off:
  "map (coil_at [1, 1, 0]) [0..<6] = replicate 6 False"
  "map (coil_at [1, 1, 0]) [0..<3] = replicate 3 False"
  by code_simp+

text \<open>The state \<^const>\<open>online_state\<close> is the one the registry's boards are in after their
  first heartbeats.\<close>

lemma startup_online:
  "program (event_loop default_config startup_events (boot (initial_state default_config)))
     = online_state default_config"
  by (simp add: startup_events_def loop_eval server_eval task_eval codec_eval config_eval
      state_eval coils_all_off)
    (rule ext, simp)

text \<open>
  C2 (amended). \<^verbatim>\<open>latchBarrierAction\<close> on a reachable board raises the board's
  \<^verbatim>\<open>commandLock\<close> before its first coil write and lowers it on every exit path, return or
  failure: run on its own, each of its requests goes to that board and is issued with the
  flag raised, the flag is down at the end, and the state of every other board is
  untouched. A heartbeat that finds the flag of its board raised returns at once without a
  request. The flag does not make actions wait: whatever the flag says, an action goes
  straight to its first write, so actions on one board are not queued and actions on
  different boards do not wait for each other.
\<close>

theorem command_lock_discipline:
  assumes barrier: "map_of (BARRIERS cfg) barrierId = Some barrier"
    and st: "boardState s (board barrier) = Some st" and up: "reachable st"
  shows
    "(run [] (latchBarrierAction cfg barrierId act src s) net = (res, s', trace, net') \<longrightarrow>
        (\<forall>(q, sq) \<in> set trace. rq_board q = board barrier \<and> locked sq (board barrier)) \<and>
        \<not> locked s' (board barrier) \<and>
        (\<forall>b. b \<noteq> board barrier \<longrightarrow> boardState s' b = boardState s b)) \<and>
     (\<forall>b. locked s b \<longrightarrow> heartbeatBoard cfg b s = Done () s) \<and>
     (map_of (BOARDS cfg) (board barrier) = Some c \<and> unitId c \<le> 255 \<and>
      lift barrier \<le> 65535 \<and> close barrier \<le> 65535 \<and> act \<in> {''lift'', ''close'', ''stop''} \<longrightarrow>
        (\<exists>q s1 k. latchBarrierAction cfg barrierId act src s = Await q s1 k \<and>
           logical q = (board barrier, 0x05,
             writeCoilRequest (if act = ''lift'' then close barrier else lift barrier) False) \<and>
           locked s1 (board barrier)))"
  using latch_lock [OF barrier st up] heartbeat_skips latch_first_write [OF barrier _ st up]
  by blast

text \<open>A stop of the first barrier: two writes are answered, the third times out, and
  the lock is released all the same.\<close>

theorem command_lock_discipline_witness:
  "map_of (BARRIERS default_config) 1
     = Some \<lparr>board = ''board1'', lift = 0, close = 1, stop = 2, barrier_name = ''Barrier 1''\<rparr> \<and>
   boardState (online_state default_config) ''board1''
     = Some (online_board \<lparr>host = ''10.10.10.64'', port = 4196, unitId = 1, channels = 6,
               board_name = ''Board 1 (Main)''\<rparr>) \<and>
   fst (run [] (latchBarrierAction default_config 1 ''stop'' ''api'' (online_state default_config))
          [[Data [0, 3, 0, 0, 0, 6, 1, 5, 0, 0, 0, 0]], [Data [0, 4, 0, 0, 0, 6, 1, 5, 0, 1, 0, 0]]])
     = Raised ModbusTimeout \<and>
   \<not> locked (fst (snd (run [] (latchBarrierAction default_config 1 ''stop'' ''api''
          (online_state default_config))
          [[Data [0, 3, 0, 0, 0, 6, 1, 5, 0, 0, 0, 0]], [Data [0, 4, 0, 0, 0, 6, 1, 5, 0, 1, 0, 0]]])))
        ''board1'' \<and>
   (\<exists>q s1 k. latchBarrierAction default_config 1 ''stop'' ''api'' (online_state default_config)
        = Await q s1 k \<and> logical q = (''board1'', 0x05, writeCoilRequest 0 False) \<and>
      locked s1 ''board1'')"
proof -
  let ?barrier = "\<lparr>board = ''board1'', lift = 0, close = 1, stop = 2, barrier_name = ''Barrier 1''\<rparr>"
  let ?c = "\<lparr>host = ''10.10.10.64'', port = 4196, unitId = 1, channels = 6,
             board_name = ''Board 1 (Main)''\<rparr>"
  let ?net = "[[Data [0, 3, 0, 0, 0, 6, 1, 5, 0, 0, 0, 0]], [Data [0, 4, 0, 0, 0, 6, 1, 5, 0, 1, 0, 0]]]"
  let ?r = "run [] (latchBarrierAction default_config 1 ''stop'' ''api''
      (online_state default_config)) ?net"
  have barrier: "map_of (BARRIERS default_config) 1 = Some ?barrier"
    by (simp add: default_config_def)
  have st: "boardState (online_state default_config) (board ?barrier) = Some (online_board ?c)"
    by (simp add: online_state_def default_config_def)
  have up: "reachable (online_board ?c)" by (simp add: online_board_def)
  have c: "map_of (BOARDS default_config) (board ?barrier) = Some ?c"
    by (simp add: default_config_def)
  have res: "fst ?r = Raised ModbusTimeout"
    by (simp add: server_eval task_eval codec_eval config_eval state_eval)
  obtain res s' trace net' where r: "?r = (res, s', trace, net')" by (cases ?r) auto
  from command_lock_discipline [OF barrier st up, of "''stop''" "''api''" ?net res s' trace net' ?c]
    r res barrier st c
  show ?thesis by simp
qed

text \<open>
  The claim as stated fails on \<^const>\<open>overlap_events\<close>. The lift of barrier 2 writes to
  the board while the lift of barrier 1 holds the lock and waits for its first answer; it
  is not queued. When it ends it lowers the flag, and the heartbeat that follows reads
  the coils of the board while the first action is still between its two writes.
\<close>

theorem command_lock_counterexample:
  "locked (program (event_loop default_config (take 2 overlap_events)
          (boot (online_state default_config)))) ''board1'' \<and>
   map logical (wire (event_loop default_config (take 2 overlap_events)
          (boot (online_state default_config))))
     = [(''board1'', 0x05, [0, 1, 0, 0]), (''board1'', 0x05, [0, 4, 0, 0])] \<and>
   \<not> locked (program (event_loop default_config overlap_events
          (boot (online_state default_config)))) ''board1'' \<and>
   map logical (wire (event_loop default_config overlap_events
          (boot (online_state default_config))))
     = [(''board1'', 0x05, [0, 1, 0, 0]), (''board1'', 0x05, [0, 4, 0, 0]),
        (''board1'', 0x05, [0, 3, 0xFF, 0]), (''board1'', 0x01, [0, 0, 0, 6])] \<and>
   map (logical \<circ> fst) (parked (event_loop default_config overlap_events
          (boot (online_state default_config))))
     = [(''board1'', 0x05, [0, 1, 0, 0]), (''board1'', 0x01, [0, 0, 0, 6])]"
  by (simp add: overlap_events_def loop_eval server_eval task_eval codec_eval config_eval
      state_eval)


section \<open>Failed exchanges and the cached mode\<close>

text \<open>
  C9 (amended). Only the heartbeat invalidates the cached dialect. An exchange by
  itself, failed or not, leaves \<^verbatim>\<open>modeDetected\<close> and \<^verbatim>\<open>useRTU\<close> of every board as they
  were, so a failure inside a barrier action, the emergency stop or a status refresh
  does not reset the dialect. A heartbeat on an idle, detected board whose read fails
  marks the board unreachable and undetected, so that the next heartbeat probes again.
\<close>

theorem dialect_invalidation:
  "(run [] (modbusRequest cfg boardKey fc data s) net = (res, s', trace, net') \<longrightarrow>
      map_option modeDetected (boardState s' b) = map_option modeDetected (boardState s b) \<and>
      map_option useRTU (boardState s' b) = map_option useRTU (boardState s b)) \<and>
   (map_of (BOARDS cfg) boardKey = Some c \<and> boardState s boardKey = Some st \<and>
    \<not> commandLock st \<and> modeDetected st \<and>
    run [] (readCoils cfg boardKey 0 (channels c) s) net = (Raised err, s1, trace1, net1) \<longrightarrow>
      (\<exists>st1. boardState s1 boardKey = Some st1 \<and>
         run [] (heartbeatBoard cfg boardKey s) net
           = (Returned (),
              set_board boardKey (st1\<lparr>reachable := False, modeDetected := False\<rparr>) s1,
              trace1, net1)))"
proof (intro conjI impI)
  assume r: "run [] (modbusRequest cfg boardKey fc data s) net = (res, s', trace, net')"
  show "map_option modeDetected (boardState s' b) = map_option modeDetected (boardState s b)"
    by (rule run_modbusRequest_modeDetected(1) [OF r])
  show "map_option useRTU (boardState s' b) = map_option useRTU (boardState s b)"
    by (rule run_modbusRequest_modeDetected(2) [OF r])
next
  assume "map_of (BOARDS cfg) boardKey = Some c \<and> boardState s boardKey = Some st \<and>
    \<not> commandLock st \<and> modeDetected st \<and>
    run [] (readCoils cfg boardKey 0 (channels c) s) net = (Raised err, s1, trace1, net1)"
  then have c: "map_of (BOARDS cfg) boardKey = Some c" and st: "boardState s boardKey = Some st"
    and idle: "\<not> commandLock st" "modeDetected st"
    and rd: "run [] (readCoils cfg boardKey 0 (channels c) s) net = (Raised err, s1, trace1, net1)"
    by simp_all
  show "\<exists>st1. boardState s1 boardKey = Some st1 \<and>
         run [] (heartbeatBoard cfg boardKey s) net
           = (Returned (),
              set_board boardKey (st1\<lparr>reachable := False, modeDetected := False\<rparr>) s1,
              trace1, net1)"
    by (rule run_heartbeat_read_fails [OF c st idle rd])
qed

text \<open>The first board, detected and reachable: a request to it times out, and so does
  the read of its next heartbeat.\<close>

theorem dialect_invalidation_witness:
  "fst (run [] (modbusRequest default_config ''board1'' 0x05 [0, 0, 0, 0]
          (online_state default_config)) [[]]) = Raised ModbusTimeout \<and>
   map_option modeDetected (boardState (fst (snd (run [] (modbusRequest default_config ''board1''
          0x05 [0, 0, 0, 0] (online_state default_config)) [[]]))) ''board1'') = Some True \<and>
   fst (run [] (heartbeatBoard default_config ''board1'' (online_state default_config)) [[]])
     = Returned () \<and>
   map_option modeDetected (boardState (fst (snd (run [] (heartbeatBoard default_config ''board1''
          (online_state default_config)) [[]]))) ''board1'') = Some False"
proof -
  let ?c = "\<lparr>host = ''10.10.10.64'', port = 4196, unitId = 1, channels = 6,
             board_name = ''Board 1 (Main)''\<rparr>"
  let ?s = "online_state default_config"
  let ?rq = "run [] (modbusRequest default_config ''board1'' 0x05 [0, 0, 0, 0] ?s) [[]]"
  let ?rd = "run [] (readCoils default_config ''board1'' 0 (channels ?c) ?s) [[]]"
  have c: "map_of (BOARDS default_config) ''board1'' = Some ?c"
    by (simp add: default_config_def)
  have st: "boardState ?s ''board1'' = Some (online_board ?c)"
    by (simp add: online_state_def default_config_def)
  have idle: "\<not> commandLock (online_board ?c)" "modeDetected (online_board ?c)"
    by (simp_all add: online_board_def)
  have q: "fst ?rq = Raised ModbusTimeout"
    by (simp add: server_eval task_eval codec_eval config_eval state_eval)
  obtain res s' trace net' where rq: "?rq = (res, s', trace, net')" by (cases ?rq) auto
  have "fst ?rd = Raised ModbusTimeout"
    by (simp add: server_eval task_eval codec_eval config_eval state_eval)
  then obtain s1 trace1 net1 where rd: "?rd = (Raised ModbusTimeout, s1, trace1, net1)"
    by (cases ?rd) auto
  from dialect_invalidation [of default_config "''board1''" "0x05" "[0, 0, 0, 0]" ?s "[[]]"
      res s' trace net' "''board1''" ?c "online_board ?c" ModbusTimeout s1 trace1 net1]
    rq q c st idle rd
  show ?thesis by (auto simp: online_board_def)
qed

text \<open>The claim as stated fails for a failure outside the heartbeat: a lift whose first
  write times out ends in failure, and the board is still taken as detected.\<close>

theorem dialect_invalidation_counterexample:
  "fst (run [] (latchBarrierAction default_config 1 ''lift'' ''api''
          (online_state default_config)) [[]]) = Raised ModbusTimeout \<and>
   map_option modeDetected (boardState (fst (snd (run [] (latchBarrierAction default_config 1
          ''lift'' ''api'' (online_state default_config)) [[]]))) ''board1'') = Some True"
  by (simp add: server_eval task_eval codec_eval config_eval state_eval)

section \<open>Close timers\<close>

text \<open>A close and then a lift of the same barrier, one after the other: the lift
  cancels the timer of the close, no timer is left pending, and the last writes leave
  the close coil off and the lift coil on.\<close>

lemma close_then_lift_in_sequence:
  "timers (program (event_loop default_config close_then_lift_events
      (boot (online_state default_config)))) = [] \<and>
   map logical (wire (event_loop default_config close_then_lift_events
      (boot (online_state default_config))))
     = [(''board1'', 0x05, writeCoilRequest 0 False), (''board1'', 0x05, writeCoilRequest 1 True),
        (''board1'', 0x05, writeCoilRequest 1 False), (''board1'', 0x05, writeCoilRequest 0 True)] \<and>
   map audit_action (auditEntries (program (event_loop default_config close_then_lift_events
      (boot (online_state default_config))))) = [''barrier_close'', ''barrier_lift'']"
  by (simp add: close_then_lift_events_def loop_eval server_eval task_eval codec_eval config_eval
      state_eval writeCoilRequest_def)

text \<open>
  C4 at two overlapping close requests for one barrier (\<^const>\<open>double_close_events\<close>).
  Both actions look for a timer to cancel before either has armed one, and each arms its
  own when its writes are done: after the sixth event two timers are pending for
  barrier 1, the handles 0 and 1, and \<^verbatim>\<open>closeTimers\<close> knows handle 1 only. The lift that
  follows cancels handle 1. Handle 0 then fires: the close coil is written once more
  after the lift, and a \<^verbatim>\<open>close_auto_release\<close> entry of source \<^verbatim>\<open>system\<close> follows the
  \<^verbatim>\<open>barrier_lift\<close> entry in the audit log.
\<close>

theorem overlapping_close_timers:
  "map (cr_barrierId \<circ> snd) (timers (program (event_loop default_config
       (take 6 double_close_events) (boot (online_state default_config))))) = [1, 1] \<and>
   map fst (timers (program (event_loop default_config
       (take 6 double_close_events) (boot (online_state default_config))))) = [0, 1] \<and>
   closeTimers (program (event_loop default_config
       (take 6 double_close_events) (boot (online_state default_config)))) = [(1, Some 1)] \<and>
   map fst (timers (program (event_loop default_config
       (take 9 double_close_events) (boot (online_state default_config))))) = [0] \<and>
   map logical (wire (event_loop default_config double_close_events
       (boot (online_state default_config))))
     = [(''board1'', 0x05, writeCoilRequest 0 False), (''board1'', 0x05, writeCoilRequest 0 False),
        (''board1'', 0x05, writeCoilRequest 1 True), (''board1'', 0x05, writeCoilRequest 1 True),
        (''board1'', 0x05, writeCoilRequest 1 False), (''board1'', 0x05, writeCoilRequest 0 True),
        (''board1'', 0x05, writeCoilRequest 1 False)] \<and>
   map (\<lambda>e. (audit_action e, audit_source e)) (auditEntries (program (event_loop default_config
       double_close_events (boot (online_state default_config)))))
     = [(''barrier_close'', ''api''), (''barrier_close'', ''api''), (''barrier_lift'', ''api''),
        (''close_auto_release'', ''system'')]"
  by (simp add: double_close_events_def loop_eval server_eval task_eval codec_eval config_eval
      state_eval writeCoilRequest_def)

end
